theory Spec2Isabelle
  imports Complex_Main "HOL-Library.Log_Nat"
begin

section \<open>JavaScript numbers\<close>

text \<open>
  The embedding follows the TypeScript of the capture page and the result page of a
  browser photobooth. A JavaScript number is an IEEE 754 binary64 value. A finite one is
  modelled by the rational it denotes, and every arithmetic operation rounds its exact
  result to the nearest binary64 value, ties to the even significand; the non-finite
  values are part of the type. The sign of zero is not modelled: the divisors in the
  source are image dimensions (non-negative integers) and the constant 2.
\<close>

datatype number = Num rat | Infinity | NegInfinity | NaN

text \<open>The binary exponent of a positive rational: \<open>2 powi e \<le> r < 2 powi (e + 1)\<close>.\<close>

definition ilog2 :: "rat \<Rightarrow> int" where
  "ilog2 r = (case quotient_of r of (p, q) \<Rightarrow>
     let d = bitlen p - bitlen q in if 2 powi d \<le> r then d else d - 1)"

text \<open>The nearest integer, a tie going to the even one.\<close>

definition roundEven :: "rat \<Rightarrow> int" where
  "roundEven q =
     (let f = \<lfloor>q\<rfloor>; d = q - of_int f
      in if d < 1 / 2 then f else if 1 / 2 < d then f + 1 else if even f then f else f + 1)"

text \<open>
  The nearest multiple of the unit in the last place: 53 significant bits, and the fixed
  unit \<open>2 powi (- 1074)\<close> below the least normal exponent \<open>- 1022\<close>.
\<close>

definition double :: "rat \<Rightarrow> rat" where
  "double r =
     (if r = 0 then 0
      else let e = max (ilog2 \<bar>r\<bar>) (- 1022); ulp = 2 powi (e - 52)
           in of_int (roundEven (r / ulp)) * ulp)"

text \<open>
  The number an exact result becomes; a rounded magnitude of \<open>2 ^ 1024\<close> is an overflow.
  A decimal literal of the source denotes \<open>round64\<close> of its decimal value.
\<close>

definition round64 :: "rat \<Rightarrow> number" where
  "round64 r =
     (let d = double r
      in if 2 ^ 1024 \<le> d then Infinity else if d \<le> - (2 ^ 1024) then NegInfinity else Num d)"

fun js_neg :: "number \<Rightarrow> number" where
  "js_neg (Num a) = Num (- a)"
| "js_neg Infinity = NegInfinity"
| "js_neg NegInfinity = Infinity"
| "js_neg NaN = NaN"

fun js_add :: "number \<Rightarrow> number \<Rightarrow> number" where
  "js_add (Num a) (Num b) = round64 (a + b)"
| "js_add NaN _ = NaN"
| "js_add _ NaN = NaN"
| "js_add Infinity NegInfinity = NaN"
| "js_add NegInfinity Infinity = NaN"
| "js_add Infinity _ = Infinity"
| "js_add _ Infinity = Infinity"
| "js_add NegInfinity _ = NegInfinity"
| "js_add _ NegInfinity = NegInfinity"

definition js_sub :: "number \<Rightarrow> number \<Rightarrow> number" where
  "js_sub a b = js_add a (js_neg b)"

fun js_mul :: "number \<Rightarrow> number \<Rightarrow> number" where
  "js_mul (Num a) (Num b) = round64 (a * b)"
| "js_mul NaN _ = NaN"
| "js_mul _ NaN = NaN"
| "js_mul (Num a) Infinity = (if a = 0 then NaN else if 0 < a then Infinity else NegInfinity)"
| "js_mul (Num a) NegInfinity = (if a = 0 then NaN else if 0 < a then NegInfinity else Infinity)"
| "js_mul Infinity (Num b) = (if b = 0 then NaN else if 0 < b then Infinity else NegInfinity)"
| "js_mul NegInfinity (Num b) = (if b = 0 then NaN else if 0 < b then NegInfinity else Infinity)"
| "js_mul Infinity Infinity = Infinity"
| "js_mul NegInfinity NegInfinity = Infinity"
| "js_mul Infinity NegInfinity = NegInfinity"
| "js_mul NegInfinity Infinity = NegInfinity"

fun js_div :: "number \<Rightarrow> number \<Rightarrow> number" where
  "js_div (Num a) (Num b) =
     (if b = 0 then (if a = 0 then NaN else if 0 < a then Infinity else NegInfinity)
      else round64 (a / b))"
| "js_div NaN _ = NaN"
| "js_div _ NaN = NaN"
| "js_div (Num a) _ = Num 0"
| "js_div Infinity (Num b) = (if 0 \<le> b then Infinity else NegInfinity)"
| "js_div NegInfinity (Num b) = (if 0 \<le> b then NegInfinity else Infinity)"
| "js_div _ _ = NaN"

fun Math_max :: "number \<Rightarrow> number \<Rightarrow> number" where
  "Math_max (Num a) (Num b) = Num (max a b)"
| "Math_max NaN _ = NaN"
| "Math_max _ NaN = NaN"
| "Math_max Infinity _ = Infinity"
| "Math_max _ Infinity = Infinity"
| "Math_max NegInfinity b = b"
| "Math_max a NegInfinity = a"

text \<open>
  \<^verbatim>\<open>Math.round\<close>: the nearest integer, ties towards plus infinity, computed on
  the value itself (no rounding error); the non-finite values are returned as they are.
\<close>

fun Math_round :: "number \<Rightarrow> number" where
  "Math_round (Num r) = Num (of_int \<lfloor>r + 1 / 2\<rfloor>)"
| "Math_round n = n"

section \<open>Data model of the photobooth\<close>

datatype FrameId = frame1 | frame2 | frame3 | frame4

text \<open>A Blob is opaque binary content; only its identity matters here.\<close>

datatype blob = Blob nat

text \<open>
  \<^verbatim>\<open>type SlotRect = { x: number; y: number; w: number; h: number }\<close>.
  The fields carry the prefix \<open>slot_\<close> since one-letter names would capture the
  variables of every later statement.
\<close>

record SlotRect =
  slot_x :: number
  slot_y :: number
  slot_w :: number
  slot_h :: number

text \<open>
  \<^verbatim>\<open>type FrameConfig = { id: FrameId; label: string; src: string; slots?: SlotRect[] }\<close>.
  The field \<open>id\<close> is written \<open>fid\<close> (\<open>id\<close> is the identity function of HOL);
  the optional field \<open>slots\<close> is an option.
\<close>

record FrameConfig =
  fid :: FrameId
  label :: string
  src :: string
  slots :: "SlotRect list option"

definition DB_KEY :: string where
  "DB_KEY = ''toaster_mvp_state_v1''"

definition DEFAULT_SLOTS :: "SlotRect list" where
  "DEFAULT_SLOTS =
    [\<lparr>slot_x = round64 0.075, slot_y = round64 0.2,
      slot_w = round64 0.425, slot_h = round64 0.2833333333\<rparr>,
     \<lparr>slot_x = round64 0.5, slot_y = round64 0.2,
      slot_w = round64 0.425, slot_h = round64 0.2833333333\<rparr>,
     \<lparr>slot_x = round64 0.075, slot_y = round64 0.5166666667,
      slot_w = round64 0.425, slot_h = round64 0.2833333333\<rparr>,
     \<lparr>slot_x = round64 0.5, slot_y = round64 0.5166666667,
      slot_w = round64 0.425, slot_h = round64 0.2833333333\<rparr>]"

definition FRAMES :: "FrameConfig list" where
  "FRAMES =
    [\<lparr>fid = frame1, label = ''Frame 1'', src = ''/frames/frame1.png'', slots = None\<rparr>,
     \<lparr>fid = frame2, label = ''Frame 2'', src = ''/frames/frame2.png'',
      slots = Some
        [\<lparr>slot_x = round64 0.105, slot_y = round64 0.3261,
          slot_w = round64 0.3675, slot_h = round64 0.2433\<rparr>,
         \<lparr>slot_x = round64 0.5142, slot_y = round64 0.3261,
          slot_w = round64 0.3683, slot_h = round64 0.2433\<rparr>,
         \<lparr>slot_x = round64 0.105, slot_y = round64 0.5783,
          slot_w = round64 0.3675, slot_h = round64 0.2428\<rparr>,
         \<lparr>slot_x = round64 0.5142, slot_y = round64 0.5783,
          slot_w = round64 0.3683, slot_h = round64 0.2428\<rparr>]\<rparr>,
     \<lparr>fid = frame3, label = ''Frame 3'', src = ''/frames/frame3.png'', slots = None\<rparr>,
     \<lparr>fid = frame4, label = ''Frame 4'', src = ''/frames/frame4.png'',
      slots = Some
        [\<lparr>slot_x = round64 0.1016, slot_y = round64 0.3242,
          slot_w = round64 0.3721, slot_h = round64 0.2474\<rparr>,
         \<lparr>slot_x = round64 0.5107, slot_y = round64 0.3242,
          slot_w = round64 0.3721, slot_h = round64 0.2474\<rparr>,
         \<lparr>slot_x = round64 0.1016, slot_y = round64 0.5762,
          slot_w = round64 0.3721, slot_h = round64 0.2474\<rparr>,
         \<lparr>slot_x = round64 0.5107, slot_y = round64 0.5762,
          slot_w = round64 0.3721, slot_h = round64 0.2474\<rparr>]\<rparr>]"

text \<open>
  \<^verbatim>\<open>return FRAMES.find((f) => f.id === frameId) ?? FRAMES[0];\<close>
\<close>

definition getFrameConfig :: "FrameId \<Rightarrow> FrameConfig" where
  "getFrameConfig frameId =
     (case find (\<lambda>f. fid f = frameId) FRAMES of
        Some f \<Rightarrow> f
      | None \<Rightarrow> FRAMES ! 0)"

text \<open>The slot table a frame is drawn with: \<^verbatim>\<open>frame.slots ?? DEFAULT_SLOTS\<close>.\<close>

definition slotsOf :: "FrameConfig \<Rightarrow> SlotRect list" where
  "slotsOf frame = (case slots frame of None \<Rightarrow> DEFAULT_SLOTS | Some s \<Rightarrow> s)"

section \<open>Platform: images, canvas, encoder\<close>

text \<open>
  An \<^verbatim>\<open>HTMLImageElement\<close> that has loaded: its dimensions and an identifier of its
  pixel content. An \<^verbatim>\<open>HTMLVideoElement\<close>: its native dimensions and the frame it
  currently shows. The dimensions are \<^verbatim>\<open>unsigned long\<close> attributes, so below \<open>2 ^ 32\<close>
  in the browser; as numbers they are exact.
\<close>

record image =
  width :: nat
  height :: nat
  bitmap :: nat

record HTMLVideoElement =
  videoWidth :: nat
  videoHeight :: nat
  currentFrame :: nat

datatype CanvasImageSource = Image image | Video HTMLVideoElement

text \<open>The calls the source makes on a 2D rendering context, in the order made.\<close>

datatype ctx_call =
    FillStyle string
  | FillRect rat rat rat rat
  | Save
  | Restore
  | BeginPath
  | Rect number number number number
  | Clip
  | DrawImage CanvasImageSource number number number number
  | StrokeStyle string
  | LineWidth rat
  | StrokeRect number number number number
  | Translate rat rat
  | Scale rat rat

record canvas =
  canvas_width :: nat
  canvas_height :: nat
  calls :: "ctx_call list"

text \<open>
  What the browser decides: whether \<^verbatim>\<open>canvas.getContext("2d")\<close> yields a context,
  the object URL of a blob, which URLs load as images (\<open>None\<close>: the \<^verbatim>\<open>onerror\<close>
  event fires), the result of \<^verbatim>\<open>canvas.toBlob(cb, type)\<close> (\<open>None\<close>: the callback
  receives \<^verbatim>\<open>null\<close>), and the engine's message for destructuring \<^verbatim>\<open>undefined\<close>.
\<close>

record platform =
  getContext :: bool
  createObjectURL :: "blob \<Rightarrow> string"
  imageAt :: "string \<Rightarrow> image option"
  toBlob :: "canvas \<Rightarrow> string \<Rightarrow> blob option"
  destructureMessage :: string

text \<open>
  Thrown values. \<^verbatim>\<open>img.onerror = reject\<close> rejects with the load error event, which
  has no \<^verbatim>\<open>message\<close>; an \<^verbatim>\<open>Error\<close> and a \<^verbatim>\<open>TypeError\<close> carry one.
\<close>

datatype error = Error string | TypeError string | LoadErrorEvent

text \<open>\<^verbatim>\<open>e?.message ?? fallback\<close>\<close>

fun messageOr :: "error \<Rightarrow> string \<Rightarrow> string" where
  "messageOr (Error m) fallback = m"
| "messageOr (TypeError m) fallback = m"
| "messageOr LoadErrorEvent fallback = fallback"

definition loadImage :: "platform \<Rightarrow> string \<Rightarrow> error + image" where
  "loadImage P url = (case imageAt P url of Some img \<Rightarrow> Inr img | None \<Rightarrow> Inl LoadErrorEvent)"

definition blobToImage :: "platform \<Rightarrow> blob \<Rightarrow> error + image" where
  "blobToImage P b = loadImage P (createObjectURL P b)"

text \<open>
  \<^verbatim>\<open>await Promise.all(shots.map(blobToImage))\<close>: the images in order, or the rejection
  of a load that fails (every failed load rejects with the same kind of value, so the
  one found first in list order stands for the one that arrives first).
\<close>

fun Promise_all :: "(error + 'a) list \<Rightarrow> error + 'a list" where
  "Promise_all [] = Inr []"
| "Promise_all (Inl e # rs) = Inl e"
| "Promise_all (Inr v # rs) = (case Promise_all rs of Inl e \<Rightarrow> Inl e | Inr vs \<Rightarrow> Inr (v # vs))"


section \<open>Result page: composeFinalPNG\<close>

definition W :: nat where "W = 1200"
definition H :: nat where "H = 1800"

text \<open>
  \<^verbatim>\<open>{ x: Math.round(slot.x * W), y: Math.round(slot.y * H),
     w: Math.round(slot.w * W), h: Math.round(slot.h * H) }\<close>
\<close>

definition toPixels :: "SlotRect \<Rightarrow> SlotRect" where
  "toPixels slot =
     \<lparr>slot_x = Math_round (js_mul (slot_x slot) (Num (of_nat W))),
      slot_y = Math_round (js_mul (slot_y slot) (Num (of_nat H))),
      slot_w = Math_round (js_mul (slot_w slot) (Num (of_nat W))),
      slot_h = Math_round (js_mul (slot_h slot) (Num (of_nat H)))\<rparr>"

text \<open>
  The placement of one shot in its pixel slot: \<open>(dx, dy, drawW, drawH)\<close>.
  \<^verbatim>\<open>
    const scale = Math.max(w / img.width, h / img.height);
    const drawW = img.width * scale;
    const drawH = img.height * scale;
    const dx = x + (w - drawW) / 2;
    const dy = y + (h - drawH) / 2;
  \<close>
\<close>

definition placement :: "SlotRect \<Rightarrow> image \<Rightarrow> number \<times> number \<times> number \<times> number" where
  "placement slot img =
     (let scale = Math_max (js_div (slot_w slot) (Num (of_nat (width img))))
                           (js_div (slot_h slot) (Num (of_nat (height img))));
          drawW = js_mul (Num (of_nat (width img))) scale;
          drawH = js_mul (Num (of_nat (height img))) scale;
          dx = js_add (slot_x slot) (js_div (js_sub (slot_w slot) drawW) (Num 2));
          dy = js_add (slot_y slot) (js_div (js_sub (slot_h slot) drawH) (Num 2))
      in (dx, dy, drawW, drawH))"

text \<open>The body of \<^verbatim>\<open>shotImgs.forEach((img, i) => ...)\<close> for one image and its slot.\<close>

definition drawShot :: "SlotRect \<Rightarrow> image \<Rightarrow> ctx_call list" where
  "drawShot slot img =
     (case placement slot img of (dx, dy, drawW, drawH) \<Rightarrow>
        [Save,
         BeginPath,
         Rect (slot_x slot) (slot_y slot) (slot_w slot) (slot_h slot),
         Clip,
         DrawImage (Image img) dx dy drawW drawH,
         Restore,
         StrokeStyle ''rgba(0,0,0,0.08)'',
         LineWidth 6,
         StrokeRect (slot_x slot) (slot_y slot) (slot_w slot) (slot_h slot)])"

text \<open>
  The loop over the loaded shots, from index \<open>i\<close>. \<^verbatim>\<open>const { x, y, w, h } = slots[i]\<close>
  throws a \<^verbatim>\<open>TypeError\<close> when the table has no entry \<open>i\<close>; the calls made for the
  earlier shots stay on the canvas. The result is the calls made and the thrown value,
  if any.
\<close>

fun forEachShot :: "platform \<Rightarrow> SlotRect list \<Rightarrow> image list \<Rightarrow> nat \<Rightarrow> ctx_call list \<Rightarrow> ctx_call list \<times> error option" where
  "forEachShot P pxs [] i cs = (cs, None)"
| "forEachShot P pxs (img # imgs) i cs =
     (if i < length pxs then forEachShot P pxs imgs (Suc i) (cs @ drawShot (pxs ! i) img)
      else (cs, Some (TypeError (destructureMessage P))))"

text \<open>
  The result is the canvas the call created (\<open>None\<close> when it threw before creating
  one) and either the thrown value or the encoded blob.
\<close>

definition composeFinalPNG :: "platform \<Rightarrow> blob list \<Rightarrow> FrameConfig \<Rightarrow> canvas option \<times> (error + blob)" where
  "composeFinalPNG P shots frame =
     (if length shots \<noteq> 4 then (None, Inl (Error ''Need exactly 4 shots''))
      else
        let pxs = map toPixels (slotsOf frame);
            c0 = \<lparr>canvas_width = W, canvas_height = H, calls = []\<rparr>
        in if \<not> getContext P then (Some c0, Inl (Error ''Canvas not supported''))
        else
          let cs1 = [FillStyle ''#ffffff'', FillRect 0 0 (of_nat W) (of_nat H)] in
          case Promise_all (map (blobToImage P) shots) of
            Inl e \<Rightarrow> (Some (c0\<lparr>calls := cs1\<rparr>), Inl e)
          | Inr shotImgs \<Rightarrow>
             (case forEachShot P pxs shotImgs 0 cs1 of
                (cs2, Some e) \<Rightarrow> (Some (c0\<lparr>calls := cs2\<rparr>), Inl e)
              | (cs2, None) \<Rightarrow>
                 (case loadImage P (src frame) of
                    Inl e \<Rightarrow> (Some (c0\<lparr>calls := cs2\<rparr>), Inl e)
                  | Inr frameImg \<Rightarrow>
                     let c3 = c0\<lparr>calls := cs2 @
                                [DrawImage (Image frameImg) (Num 0) (Num 0) (Num (of_nat W)) (Num (of_nat H))]\<rparr>
                     in (case toBlob P c3 ''image/png'' of
                           None \<Rightarrow> (Some c3, Inl (Error ''toBlob failed''))
                         | Some b \<Rightarrow> (Some c3, Inr b)))))"


section \<open>Capture page\<close>

text \<open>
  \<^verbatim>\<open>captureFromVideo\<close>: the canvas it created (if any) and the thrown value or the blob.
  \<^verbatim>\<open>if (!vw || !vh) throw new Error("Video not ready")\<close>.
\<close>

definition captureFromVideo :: "platform \<Rightarrow> HTMLVideoElement \<Rightarrow> canvas option \<times> (error + blob)" where
  "captureFromVideo P video =
     (let vw = videoWidth video; vh = videoHeight video
      in if vw = 0 \<or> vh = 0 then (None, Inl (Error ''Video not ready''))
      else
        let c0 = \<lparr>canvas_width = vw, canvas_height = vh, calls = []\<rparr>
        in if \<not> getContext P then (Some c0, Inl (Error ''Canvas not supported''))
        else
          let c1 = c0\<lparr>calls :=
                 [Save,
                  Translate (of_nat vw) 0,
                  Scale (- 1) 1,
                  DrawImage (Video video) (Num 0) (Num 0) (Num (of_nat vw)) (Num (of_nat vh)),
                  Restore]\<rparr>
          in (case toBlob P c1 ''image/png'' of
                None \<Rightarrow> (Some c1, Inl (Error ''toBlob failed''))
              | Some b \<Rightarrow> (Some c1, Inr b)))"

subsection \<open>The transformation calls of the 2D context\<close>

text \<open>
  The meaning the platform gives to \<^verbatim>\<open>save\<close>, \<^verbatim>\<open>restore\<close>, \<^verbatim>\<open>translate\<close> and
  \<^verbatim>\<open>scale\<close> (HTML Standard, canvas 2D context): a current transformation matrix
  \<open>(a, b, c, d, e, f)\<close> that maps the point \<open>(x, y)\<close> of a drawing call to
  \<open>(a x + c y + e, b x + d y + f)\<close> on the canvas, a stack of saved matrices, and
  \<^verbatim>\<open>translate\<close> and \<^verbatim>\<open>scale\<close> multiplying the current matrix on the right.
\<close>

type_synonym matrix = "rat \<times> rat \<times> rat \<times> rat \<times> rat \<times> rat"

definition identityMatrix :: matrix where
  "identityMatrix = (1, 0, 0, 1, 0, 0)"

fun translate :: "matrix \<Rightarrow> rat \<Rightarrow> rat \<Rightarrow> matrix" where
  "translate (a, b, c, d, e, f) tx ty = (a, b, c, d, a * tx + c * ty + e, b * tx + d * ty + f)"

fun scale :: "matrix \<Rightarrow> rat \<Rightarrow> rat \<Rightarrow> matrix" where
  "scale (a, b, c, d, e, f) sx sy = (a * sx, b * sx, c * sy, d * sy, e, f)"

fun transformPoint :: "matrix \<Rightarrow> rat \<times> rat \<Rightarrow> rat \<times> rat" where
  "transformPoint (a, b, c, d, e, f) (x, y) = (a * x + c * y + e, b * x + d * y + f)"

text \<open>The \<^verbatim>\<open>drawImage\<close> calls of a call sequence, each with the matrix in force.\<close>

fun drawImageCalls :: "ctx_call list \<Rightarrow> matrix \<Rightarrow> matrix list \<Rightarrow> (CanvasImageSource \<times> matrix) list" where
  "drawImageCalls [] m st = []"
| "drawImageCalls (Save # cs) m st = drawImageCalls cs m (m # st)"
| "drawImageCalls (Restore # cs) m [] = drawImageCalls cs m []"
| "drawImageCalls (Restore # cs) m (m' # st) = drawImageCalls cs m' st"
| "drawImageCalls (Translate tx ty # cs) m st = drawImageCalls cs (translate m tx ty) st"
| "drawImageCalls (Scale sx sy # cs) m st = drawImageCalls cs (scale m sx sy) st"
| "drawImageCalls (DrawImage source dx dy dw dh # cs) m st = (source, m) # drawImageCalls cs m st"
| "drawImageCalls (c # cs) m st = drawImageCalls cs m st"

text \<open>
  A source drawn at the origin in its native size has its pixel column \<open>i\<close> on the
  strip \<open>[i, i + 1]\<close>; the canvas pixel column that strip lands on under the matrix \<open>m\<close>
  is the floor of the strip's left edge on the canvas.
\<close>

definition pixelColumn :: "matrix \<Rightarrow> nat \<Rightarrow> int" where
  "pixelColumn m i =
     \<lfloor>min (fst (transformPoint m (of_nat i, 0))) (fst (transformPoint m (of_nat i + 1, 0)))\<rfloor>"

subsection \<open>shoot4WithPerShotCountdown\<close>

text \<open>
  \<^verbatim>\<open>type SavedState = { shots: Blob[]; frameId: FrameId; final?: Blob; savedAt: number }\<close>.
  The value read back from the store is cast to this type unchecked, and the readers
  guard the fields (\<^verbatim>\<open>!data.shots\<close>, \<^verbatim>\<open>data.frameId ?? "frame1"\<close>,
  \<^verbatim>\<open>data.savedAt ?? null\<close>), so every field can be absent in a stored record. The
  payloads the pages write always carry \<open>shots\<close>, \<open>frameId\<close> and \<open>savedAt\<close>.
\<close>

record SavedState =
  shots :: "blob list option"
  frameId :: "FrameId option"
  final :: "blob option"
  savedAt :: "nat option"

type_synonym store = "string \<rightharpoonup> SavedState"

text \<open>
  What one run of a handler meets: the browser, the video element behind
  \<^verbatim>\<open>videoRef.current\<close> (\<open>None\<close>: the ref is null) given as its state at the moment of
  the \<open>i\<close>-th capture, the value of \<^verbatim>\<open>Date.now()\<close>, and whether the object store
  rejects (\<open>Some e\<close>: \<^verbatim>\<open>get\<close>, \<^verbatim>\<open>set\<close> and \<^verbatim>\<open>del\<close> reject with \<open>e\<close>).
\<close>

record session =
  browser :: platform
  videoRef :: "(nat \<Rightarrow> HTMLVideoElement) option"
  now :: nat
  idbFailure :: "error option"

definition idb_get :: "session \<Rightarrow> store \<Rightarrow> string \<Rightarrow> error + SavedState option" where
  "idb_get E db k = (case idbFailure E of Some e \<Rightarrow> Inl e | None \<Rightarrow> Inr (db k))"

definition idb_set :: "session \<Rightarrow> store \<Rightarrow> string \<Rightarrow> SavedState \<Rightarrow> error + store" where
  "idb_set E db k v = (case idbFailure E of Some e \<Rightarrow> Inl e | None \<Rightarrow> Inr (db(k \<mapsto> v)))"

definition idb_del :: "session \<Rightarrow> store \<Rightarrow> string \<Rightarrow> error + store" where
  "idb_del E db k = (case idbFailure E of Some e \<Rightarrow> Inl e | None \<Rightarrow> Inr (db(k := None)))"

text \<open>The React state of the capture page.\<close>

record capture_page =
  cameraOn :: bool
  cap_error :: "string option"
  isShooting :: bool
  countdown :: nat
  shotIndex :: nat
  cap_shots :: "blob list"

text \<open>What a run does that is not a state variable, in order.\<close>

datatype event =
    SetCountdown nat
  | Sleep nat
  | Captured nat blob
  | Stored string SavedState

text \<open>
  \<^verbatim>\<open>for (let c = 3; c >= 1; c--) { setCountdown(c); await sleep(1000); }\<close>, from \<open>c\<close>.
\<close>

fun perShotCountdown :: "nat \<Rightarrow> event list" where
  "perShotCountdown 0 = []"
| "perShotCountdown (Suc c) = [SetCountdown (Suc c), Sleep 1000] @ perShotCountdown c"

text \<open>
  \<^verbatim>\<open>for (let i = 0; i < 4; i++) { ... }\<close> from \<open>i\<close>, with the local list \<open>captured\<close>, the
  page state and the events so far. A capture that throws leaves the loop.
\<close>

function shootLoop :: "session \<Rightarrow> (nat \<Rightarrow> HTMLVideoElement) \<Rightarrow> nat \<Rightarrow> blob list \<Rightarrow> capture_page \<Rightarrow> event list
    \<Rightarrow> (error + blob list) \<times> capture_page \<times> event list" where
  "shootLoop E video i captured s tr =
     (if i < 4 then
        let tr1 = tr @ perShotCountdown 3 @ [SetCountdown 0];
            s1 = s\<lparr>countdown := 0\<rparr>
        in (case snd (captureFromVideo (browser E) (video i)) of
              Inl e \<Rightarrow> (Inl e, s1, tr1)
            | Inr b \<Rightarrow>
                let captured' = captured @ [b];
                    s2 = s1\<lparr>cap_shots := captured', shotIndex := length captured'\<rparr>;
                    tr2 = tr1 @ [Captured i b] @ (if i < 3 then [Sleep 400] else [])
                in shootLoop E video (Suc i) captured' s2 tr2)
      else (Inr captured, s, tr))"
  by pat_completeness auto
termination
  by (relation "measure (\<lambda>(E, video, i, captured, s, tr). 4 - i)") auto

text \<open>Which \<^verbatim>\<open>return\<close> a run of the handler reached.\<close>

datatype run = Refused | Failed | Completed

definition shoot4WithPerShotCountdown ::
    "session \<Rightarrow> capture_page \<Rightarrow> store \<Rightarrow> run \<times> capture_page \<times> store \<times> event list" where
  "shoot4WithPerShotCountdown E s0 db =
     (let s = s0\<lparr>cap_error := None\<rparr> in
      case videoRef E of
        None \<Rightarrow> (Refused, s\<lparr>cap_error := Some ''No video element''\<rparr>, db, [])
      | Some video \<Rightarrow>
          if \<not> cameraOn s then (Refused, s\<lparr>cap_error := Some ''Camera is off''\<rparr>, db, [])
          else if isShooting s then (Refused, s, db, [])
          else
            (case shootLoop E video 0 [] (s\<lparr>isShooting := True, cap_shots := [], shotIndex := 0\<rparr>) [] of
               (Inl e, s1, tr) \<Rightarrow>
                 (Failed,
                  s1\<lparr>cap_error := Some (messageOr e ''Capture failed''), isShooting := False, countdown := 0\<rparr>,
                  db, tr)
             | (Inr captured, s1, tr) \<Rightarrow>
                 let payload = \<lparr>shots = Some captured, frameId = Some frame1, final = None,
                                savedAt = Some (now E)\<rparr>
                 in (case idb_set E db DB_KEY payload of
                       Inl e \<Rightarrow>
                         (Failed,
                          s1\<lparr>cap_error := Some (messageOr e ''Capture failed''), isShooting := False,
                             countdown := 0\<rparr>,
                          db, tr)
                     | Inr db' \<Rightarrow>
                         (Completed, s1\<lparr>isShooting := False, countdown := 0\<rparr>, db',
                          tr @ [Stored DB_KEY payload]))))"


section \<open>Result page\<close>

text \<open>The React state of the result page, and its initial values (\<^verbatim>\<open>useState(...)\<close>).\<close>

record result_page =
  res_error :: "string option"
  loading :: bool
  res_shots :: "blob list"
  res_frameId :: FrameId
  finalBlob :: "blob option"
  saving :: bool
  loadedAt :: "nat option"

definition initialResultPage :: result_page where
  "initialResultPage =
     \<lparr>res_error = None, loading = True, res_shots = [], res_frameId = frame1,
      finalBlob = None, saving = False, loadedAt = None\<rparr>"

text \<open>\<^verbatim>\<open>data.frameId ?? "frame1"\<close>\<close>

definition frameIdOrDefault :: "SavedState \<Rightarrow> FrameId" where
  "frameIdOrDefault data = (case frameId data of None \<Rightarrow> frame1 | Some f \<Rightarrow> f)"

text \<open>
  The effect that loads from the store on mount. The branch for missing data is taken
  when \<^verbatim>\<open>!data || !data.shots || data.shots.length !== 4\<close>.
\<close>

definition noCapturingData :: "result_page \<Rightarrow> result_page" where
  "noCapturingData s =
     s\<lparr>res_error :=
         Some ''No capturing data found. Please take 4 photos on the capturing page first.'',
       res_shots := [], finalBlob := None, loadedAt := None, loading := False\<rparr>"

definition loadOnMount :: "session \<Rightarrow> store \<Rightarrow> result_page \<Rightarrow> result_page" where
  "loadOnMount E db s0 =
     (let s = s0\<lparr>res_error := None, loading := True\<rparr> in
      case idb_get E db DB_KEY of
        Inl e \<Rightarrow> s\<lparr>res_error := Some (messageOr e ''Load failed''), loading := False\<rparr>
      | Inr None \<Rightarrow> noCapturingData s
      | Inr (Some data) \<Rightarrow>
          (case shots data of
             None \<Rightarrow> noCapturingData s
           | Some stored \<Rightarrow>
               if length stored \<noteq> 4 then noCapturingData s
               else
                 let s1 = s\<lparr>res_shots := stored, res_frameId := frameIdOrDefault data,
                            loadedAt := savedAt data\<rparr>;
                     selected = getFrameConfig (frameIdOrDefault data)
                 in (case snd (composeFinalPNG (browser E) stored selected) of
                       Inl e \<Rightarrow> s1\<lparr>res_error := Some (messageOr e ''Load failed''), loading := False\<rparr>
                     | Inr png \<Rightarrow> s1\<lparr>finalBlob := Some png, loading := False\<rparr>)))"

text \<open>
  The effect on \<^verbatim>\<open>[frameId]\<close>: recompute when the frame changes, if there are 4 shots,
  and persist the chosen frame with the new composite.
\<close>

definition frameEffect :: "session \<Rightarrow> store \<Rightarrow> result_page \<Rightarrow> result_page \<times> store" where
  "frameEffect E db s =
     (if length (res_shots s) \<noteq> 4 then (s, db)
      else
        case snd (composeFinalPNG (browser E) (res_shots s) (getFrameConfig (res_frameId s))) of
          Inl e \<Rightarrow> (s\<lparr>res_error := Some (messageOr e ''Compose failed'')\<rparr>, db)
        | Inr png \<Rightarrow>
            let s1 = s\<lparr>finalBlob := Some png\<rparr>;
                payload = \<lparr>shots = Some (res_shots s), frameId = Some (res_frameId s),
                           final = Some png, savedAt = Some (now E)\<rparr>
            in (case idb_set E db DB_KEY payload of
                  Inl e \<Rightarrow> (s1\<lparr>res_error := Some (messageOr e ''Compose failed'')\<rparr>, db)
                | Inr db' \<Rightarrow> (s1\<lparr>loadedAt := Some (now E)\<rparr>, db')))"

text \<open>
  A click on a frame button: \<^verbatim>\<open>onClick={() => setFrameId(f.id)}\<close>. Setting the state
  to the value it has renders nothing anew, so the effect runs only for a different frame.
\<close>

definition selectFrame :: "session \<Rightarrow> store \<Rightarrow> result_page \<Rightarrow> FrameId \<Rightarrow> result_page \<times> store" where
  "selectFrame E db s f =
     (if f = res_frameId s then (s, db) else frameEffect E db (s\<lparr>res_frameId := f\<rparr>))"

definition saveToDB :: "session \<Rightarrow> store \<Rightarrow> result_page \<Rightarrow> result_page \<times> store" where
  "saveToDB E db s0 =
     (let s = s0\<lparr>res_error := None\<rparr> in
      if length (res_shots s) \<noteq> 4 then (s\<lparr>res_error := Some ''4 photos are required.''\<rparr>, db)
      else
        let payload = \<lparr>shots = Some (res_shots s), frameId = Some (res_frameId s),
                       final = finalBlob s, savedAt = Some (now E)\<rparr>
        in (case idb_set E db DB_KEY payload of
              Inl e \<Rightarrow> (s\<lparr>res_error := Some (messageOr e ''Save failed''), saving := False\<rparr>, db)
            | Inr db' \<Rightarrow> (s\<lparr>loadedAt := Some (now E), saving := False\<rparr>, db')))"

definition clearDB :: "session \<Rightarrow> store \<Rightarrow> result_page \<Rightarrow> result_page \<times> store" where
  "clearDB E db s0 =
     (let s = s0\<lparr>res_error := None\<rparr> in
      case idb_del E db DB_KEY of
        Inl e \<Rightarrow> (s\<lparr>res_error := Some (messageOr e ''Clear failed''), saving := False\<rparr>, db)
      | Inr db' \<Rightarrow> (s\<lparr>loadedAt := None, res_shots := [], finalBlob := None, saving := False\<rparr>, db'))"

section \<open>The persistence operations\<close>

text \<open>
  The handlers and effects of the two pages that write to the object store, each with
  the page state it runs on, and the store each leaves behind.
\<close>

datatype operation =
    CaptureSave capture_page
  | FrameSave result_page FrameId
  | ManualSave result_page
  | Delete result_page

fun storeAfter :: "session \<Rightarrow> operation \<Rightarrow> store \<Rightarrow> store" where
  "storeAfter E (CaptureSave c) db = fst (snd (snd (shoot4WithPerShotCountdown E c db)))"
| "storeAfter E (FrameSave s f) db = snd (selectFrame E db s f)"
| "storeAfter E (ManualSave s) db = snd (saveToDB E db s)"
| "storeAfter E (Delete s) db = snd (clearDB E db s)"

text \<open>Any sequence of operations, each in the session it meets.\<close>

fun storeAfterAll :: "(session \<times> operation) list \<Rightarrow> store \<Rightarrow> store" where
  "storeAfterAll [] db = db"
| "storeAfterAll ((E, op) # ops) db = storeAfterAll ops (storeAfter E op db)"

text \<open>A record that carries every field the type \<^verbatim>\<open>SavedState\<close> requires.\<close>

definition complete :: "SavedState \<Rightarrow> bool" where
  "complete r \<longleftrightarrow> (case shots r of None \<Rightarrow> False | Some bs \<Rightarrow> length bs = 4)
                   \<and> frameId r \<noteq> None \<and> savedAt r \<noteq> None"


section \<open>What the specification describes\<close>

text \<open>
  The slot rectangle of the specification: each normalised coordinate scaled by 1200 or
  1800 and rounded.
\<close>

definition roundedSlot :: "SlotRect \<Rightarrow> SlotRect" where
  "roundedSlot slot =
     \<lparr>slot_x = Math_round (js_mul (slot_x slot) (Num 1200)),
      slot_y = Math_round (js_mul (slot_y slot) (Num 1800)),
      slot_w = Math_round (js_mul (slot_w slot) (Num 1200)),
      slot_h = Math_round (js_mul (slot_h slot) (Num 1800))\<rparr>"

text \<open>
  The scale of the specification, \<open>max (w / imgWidth) (h / imgHeight)\<close>, the drawn size
  \<open>imgWidth * scale\<close> by \<open>imgHeight * scale\<close>, and the origin
  \<open>(x + (w - drawW) / 2, y + (h - drawH) / 2)\<close> that centres the image on the slot.
\<close>

definition coverScale :: "SlotRect \<Rightarrow> image \<Rightarrow> number" where
  "coverScale slot img =
     Math_max (js_div (slot_w slot) (Num (of_nat (width img))))
              (js_div (slot_h slot) (Num (of_nat (height img))))"

definition coverWidth :: "SlotRect \<Rightarrow> image \<Rightarrow> number" where
  "coverWidth slot img = js_mul (Num (of_nat (width img))) (coverScale slot img)"

definition coverHeight :: "SlotRect \<Rightarrow> image \<Rightarrow> number" where
  "coverHeight slot img = js_mul (Num (of_nat (height img))) (coverScale slot img)"

definition coverLeft :: "SlotRect \<Rightarrow> image \<Rightarrow> number" where
  "coverLeft slot img =
     js_add (slot_x slot) (js_div (js_sub (slot_w slot) (coverWidth slot img)) (Num 2))"

definition coverTop :: "SlotRect \<Rightarrow> image \<Rightarrow> number" where
  "coverTop slot img =
     js_add (slot_y slot) (js_div (js_sub (slot_h slot) (coverHeight slot img)) (Num 2))"

text \<open>
  A shot drawn clipped into a slot: the state saved, the clip set to the slot rectangle,
  the image drawn centred at the covering size, the state restored (which lifts the
  clip), and the outline of the slot stroked 6 wide in a translucent black.
\<close>

definition clippedShot :: "SlotRect \<Rightarrow> image \<Rightarrow> ctx_call list" where
  "clippedShot slot img =
     [Save,
      BeginPath,
      Rect (slot_x slot) (slot_y slot) (slot_w slot) (slot_h slot),
      Clip,
      DrawImage (Image img) (coverLeft slot img) (coverTop slot img)
        (coverWidth slot img) (coverHeight slot img),
      Restore,
      StrokeStyle ''rgba(0,0,0,0.08)'',
      LineWidth 6,
      StrokeRect (slot_x slot) (slot_y slot) (slot_w slot) (slot_h slot)]"

text \<open>
  The composite of the specification: a 1200 by 1800 canvas, filled white, then shot \<open>i\<close>
  drawn clipped into the rounded slot \<open>i\<close> of the table for \<open>i = 0, 1, 2, 3\<close>, then the
  frame image over the whole canvas.
\<close>

definition composite :: "SlotRect list \<Rightarrow> image list \<Rightarrow> image \<Rightarrow> canvas" where
  "composite table imgs frameImg =
     \<lparr>canvas_width = 1200, canvas_height = 1800,
      calls =
        [FillStyle ''#ffffff'', FillRect 0 0 1200 1800]
        @ clippedShot (roundedSlot (table ! 0)) (imgs ! 0)
        @ clippedShot (roundedSlot (table ! 1)) (imgs ! 1)
        @ clippedShot (roundedSlot (table ! 2)) (imgs ! 2)
        @ clippedShot (roundedSlot (table ! 3)) (imgs ! 3)
        @ [DrawImage (Image frameImg) (Num 0) (Num 0) (Num 1200) (Num 1800)]\<rparr>"

text \<open>
  The snapshot of the specification: a canvas of the video's native size holding the
  frame drawn under \<open>translate(vw, 0)\<close> followed by \<open>scale(-1, 1)\<close>.
\<close>

definition mirrorCanvas :: "HTMLVideoElement \<Rightarrow> canvas" where
  "mirrorCanvas video =
     \<lparr>canvas_width = videoWidth video, canvas_height = videoHeight video,
      calls =
        [Save,
         Translate (of_nat (videoWidth video)) 0,
         Scale (- 1) 1,
         DrawImage (Video video) (Num 0) (Num 0)
           (Num (of_nat (videoWidth video))) (Num (of_nat (videoHeight video))),
         Restore]\<rparr>"

section \<open>Concrete inputs\<close>

text \<open>A browser in which every call succeeds, four blobs, and a session with a camera.\<close>

fun contentId :: "ctx_call \<Rightarrow> nat" where
  "contentId (DrawImage (Image img) dx dy dw dh) = bitmap img"
| "contentId (DrawImage (Video video) dx dy dw dh) = currentFrame video"
| "contentId c = 0"

definition workingBrowser :: platform where
  "workingBrowser =
     \<lparr>getContext = True,
      createObjectURL = (\<lambda>b. case b of Blob n \<Rightarrow> ''blob:'' @ replicate n (CHR ''a'')),
      imageAt = (\<lambda>url. Some \<lparr>width = 1280, height = 720, bitmap = length url\<rparr>),
      toBlob = (\<lambda>c mime. Some (Blob (100 + sum_list (map contentId (calls c))))),
      destructureMessage = ''Cannot destructure property of undefined''\<rparr>"

definition fourShots :: "blob list" where
  "fourShots = [Blob 0, Blob 1, Blob 2, Blob 3]"

definition emptyTableFrame :: FrameConfig where
  "emptyTableFrame =
     \<lparr>fid = frame1, label = ''Frame 1'', src = ''/frames/frame1.png'', slots = Some []\<rparr>"

definition webcam :: "nat \<Rightarrow> HTMLVideoElement" where
  "webcam i = \<lparr>videoWidth = 1280, videoHeight = 720, currentFrame = i\<rparr>"

definition workingSession :: session where
  "workingSession =
     \<lparr>browser = workingBrowser, videoRef = Some webcam, now = 1700000000000, idbFailure = None\<rparr>"

text \<open>A camera that has no frame yet when the third capture runs.\<close>

definition stallingWebcam :: "nat \<Rightarrow> HTMLVideoElement" where
  "stallingWebcam i =
     (if i = 2 then \<lparr>videoWidth = 0, videoHeight = 0, currentFrame = i\<rparr> else webcam i)"

definition stallingSession :: session where
  "stallingSession = workingSession\<lparr>videoRef := Some stallingWebcam\<rparr>"

text \<open>A result page that has loaded four shots under \<open>frame1\<close>, and the record it came from.\<close>

definition loadedResultPage :: result_page where
  "loadedResultPage =
     \<lparr>res_error = None, loading = False, res_shots = fourShots, res_frameId = frame1,
      finalBlob = Some (Blob 144), saving = False, loadedAt = Some 1600000000000\<rparr>"

definition storedRecord :: SavedState where
  "storedRecord =
     \<lparr>shots = Some fourShots, frameId = Some frame2, final = Some (Blob 7),
      savedAt = Some 1600000000000\<rparr>"

definition readyCapturePage :: capture_page where
  "readyCapturePage =
     \<lparr>cameraOn = True, cap_error = None, isShooting = False, countdown = 0, shotIndex = 0,
      cap_shots = []\<rparr>"

section \<open>Properties\<close>

subsection \<open>Rounding to binary64\<close>

lemma pow_bitlen:
  assumes "0 < (p::int)"
  shows "(2::rat) powi (bitlen p - 1) \<le> of_int p" "of_int p < (2::rat) powi bitlen p"
proof -
  from bitlen_bounds[OF assms] have a: "2 ^ nat (bitlen p - 1) \<le> p" and b: "p < 2 ^ nat (bitlen p)"
    by auto
  have b1: "1 \<le> bitlen p" using assms by (auto simp: bitlen_alt_def)
  have "(2::rat) powi (bitlen p - 1) = 2 ^ nat (bitlen p - 1)"
    using b1 by (simp add: power_int_def)
  also have "\<dots> = of_int (2 ^ nat (bitlen p - 1))" by simp
  also have "\<dots> \<le> of_int p" using a by (simp only: of_int_le_iff)
  finally show "(2::rat) powi (bitlen p - 1) \<le> of_int p" .
  have "of_int p < (of_int (2 ^ nat (bitlen p)) :: rat)" using b by (simp only: of_int_less_iff)
  also have "\<dots> = 2 powi bitlen p" using b1 by (simp add: power_int_def)
  finally show "of_int p < (2::rat) powi bitlen p" .
qed

lemma ilog2_bounds:
  assumes "0 < r"
  shows "2 powi ilog2 r \<le> r" and "r < 2 powi (ilog2 r + 1)"
proof -
  obtain p q where pq: "quotient_of r = (p, q)" by (cases "quotient_of r")
  then have q: "0 < q" by (rule quotient_of_denom_pos)
  have r: "r = of_int p / of_int q" using pq by (rule quotient_of_div)
  have p: "0 < p" using assms q r by (simp add: zero_less_divide_iff)
  let ?d = "bitlen p - bitlen q"
  have qr: "0 < (of_int q :: rat)" using q by simp
  have up: "r < 2 powi (?d + 1)"
  proof -
    have "of_int p < (2::rat) powi bitlen p" using pow_bitlen[OF p] by simp
    also have "\<dots> = 2 powi (?d + 1) * 2 powi (bitlen q - 1)"
      by (simp add: power_int_add[symmetric])
    also have "\<dots> \<le> 2 powi (?d + 1) * of_int q"
      using pow_bitlen(1)[OF q] by (intro mult_left_mono) simp_all
    finally show ?thesis using qr by (simp add: r pos_divide_less_eq)
  qed
  have lo: "2 powi (?d - 1) \<le> r"
  proof -
    have "2 powi (?d - 1) * of_int q \<le> 2 powi (?d - 1) * (2::rat) powi bitlen q"
      using pow_bitlen(2)[OF q] by (intro mult_left_mono) simp_all
    also have "\<dots> = 2 powi (bitlen p - 1)"
      by (simp add: power_int_add[symmetric])
    also have "\<dots> \<le> of_int p" using pow_bitlen(1)[OF p] .
    finally show ?thesis using qr by (simp add: r pos_le_divide_eq)
  qed
  have e: "ilog2 r = (if 2 powi ?d \<le> r then ?d else ?d - 1)"
    by (simp add: ilog2_def pq Let_def)
  show "2 powi ilog2 r \<le> r" using e lo by (simp split: if_splits)
  show "r < 2 powi (ilog2 r + 1)" using e up by (simp split: if_splits)
qed

lemma pow2_less_iff: "(2::rat) powi a < 2 powi b \<longleftrightarrow> a < b"
proof
  assume l: "(2::rat) powi a < 2 powi b"
  show "a < b"
  proof (rule ccontr)
    assume "\<not> a < b"
    then have "b \<le> a" by simp
    then have "(2::rat) powi b \<le> 2 powi a" by (intro power_int_increasing) simp_all
    with l show False by simp
  qed
next
  assume "a < b"
  then show "(2::rat) powi a < 2 powi b" by (intro power_int_strict_increasing) simp_all
qed

lemma pow2_le_iff: "(2::rat) powi a \<le> 2 powi b \<longleftrightarrow> a \<le> b"
  using pow2_less_iff[of b a] by (auto simp: not_less[symmetric])

lemma ilog2_unique:
  assumes "2 powi e \<le> r" "r < 2 powi (e + 1)"
  shows "ilog2 r = e"
proof -
  have r: "0 < r" using assms(1) by (rule less_le_trans[rotated]) simp
  note b = ilog2_bounds[OF r]
  have "(2::rat) powi e < 2 powi (ilog2 r + 1)" using assms(1) b(2) by simp
  then have 1: "e < ilog2 r + 1" by (simp only: pow2_less_iff)
  have "(2::rat) powi ilog2 r < 2 powi (e + 1)" using assms(2) b(1) by simp
  then have 2: "ilog2 r < e + 1" by (simp only: pow2_less_iff)
  from 1 2 show ?thesis by simp
qed

lemma roundEven_near: "\<bar>of_int (roundEven q) - q\<bar> \<le> 1 / 2"
proof -
  have "of_int \<lfloor>q\<rfloor> \<le> q" "q < of_int \<lfloor>q\<rfloor> + 1" by linarith+
  then show ?thesis by (auto simp: roundEven_def Let_def)
qed

lemma roundEven_le: "q \<le> of_int k \<Longrightarrow> roundEven q \<le> k"
proof -
  assume a: "q \<le> of_int k"
  then have f: "\<lfloor>q\<rfloor> \<le> k" by (simp add: floor_le_iff)
  show ?thesis
  proof (cases "\<lfloor>q\<rfloor> = k")
    case True
    then have "q = of_int k" using a by (metis of_int_floor_le order.antisym)
    then show ?thesis by (simp add: roundEven_def)
  next
    case False
    with f have "\<lfloor>q\<rfloor> + 1 \<le> k" by simp
    then show ?thesis by (auto simp: roundEven_def Let_def)
  qed
qed

lemma roundEven_ge: "of_int k \<le> q \<Longrightarrow> k \<le> roundEven q"
proof -
  assume "of_int k \<le> q"
  then have "k \<le> \<lfloor>q\<rfloor>" by (simp add: le_floor_iff)
  then show ?thesis by (auto simp: roundEven_def Let_def)
qed

lemma roundEven_of_int: "roundEven (of_int k) = k"
  by (simp add: roundEven_def)

text \<open>The value of \<open>double\<close> once the exponent is known.\<close>

lemma double_unfold:
  "r \<noteq> 0 \<Longrightarrow> double r =
     of_int (roundEven (r / 2 powi (max (ilog2 \<bar>r\<bar>) (- 1022) - 52)))
       * 2 powi (max (ilog2 \<bar>r\<bar>) (- 1022) - 52)"
  by (simp add: double_def Let_def)

lemma double_eval:
  assumes "2 powi e \<le> \<bar>r\<bar>" "\<bar>r\<bar> < 2 powi (e + 1)" "- 1022 \<le> e"
  shows "double r = of_int (roundEven (r / 2 powi (e - 52))) * 2 powi (e - 52)"
proof -
  have "r \<noteq> 0"
  proof
    assume "r = 0"
    with assms(1) have "(2::rat) powi e \<le> 0" by simp
    moreover have "0 < (2::rat) powi e" by simp
    ultimately show False by linarith
  qed
  moreover have "ilog2 \<bar>r\<bar> = e" using assms(1,2) by (rule ilog2_unique)
  ultimately show ?thesis using assms(3) by (simp add: double_unfold max_def)
qed

text \<open>The rounding error: half a unit in the last place, hence \<open>2 powi (- 53)\<close> relative.\<close>

lemma double_error_abs:
  assumes "r \<noteq> 0"
  shows "\<bar>double r - r\<bar> \<le> 2 powi (max (ilog2 \<bar>r\<bar>) (- 1022) - 53)"
proof -
  let ?e = "max (ilog2 \<bar>r\<bar>) (- 1022)"
  let ?u = "(2::rat) powi (?e - 52)"
  have u: "0 < ?u" by simp
  have "\<bar>double r - r\<bar> = \<bar>of_int (roundEven (r / ?u)) * ?u - (r / ?u) * ?u\<bar>"
    using assms u by (simp add: double_unfold)
  also have "\<dots> = \<bar>(of_int (roundEven (r / ?u)) - r / ?u) * ?u\<bar>"
    by (simp only: left_diff_distrib)
  also have "\<dots> = \<bar>of_int (roundEven (r / ?u)) - r / ?u\<bar> * ?u"
    using u by (simp only: abs_mult abs_of_pos)
  also have "\<dots> \<le> (1 / 2) * ?u"
    using u roundEven_near[of "r / ?u"] by (intro mult_right_mono) simp_all
  also have "\<dots> = 2 powi (?e - 53)"
  proof -
    have "(2::rat) powi (?e - 53 + 1) = 2 powi (?e - 53) * 2 powi 1"
      by (rule power_int_add) simp
    then have "(2::rat) powi (?e - 52) = 2 powi (?e - 53) * 2"
      by (simp add: algebra_simps)
    then show ?thesis by simp
  qed
  finally show ?thesis .
qed

lemma double_error_rel:
  assumes "2 powi (- 1022) \<le> \<bar>r\<bar>"
  shows "\<bar>double r - r\<bar> \<le> \<bar>r\<bar> * 2 powi (- 53)"
proof -
  have "0 < (2::rat) powi (- 1022)" by simp
  with assms have "0 < \<bar>r\<bar>" by linarith
  then have r: "r \<noteq> 0" "0 < \<bar>r\<bar>" by auto
  have "(2::rat) powi (- 1022) < 2 powi (ilog2 \<bar>r\<bar> + 1)"
    using assms ilog2_bounds(2)[OF r(2)] by simp
  then have e: "- 1022 \<le> ilog2 \<bar>r\<bar>" by (simp only: pow2_less_iff)
  have "\<bar>double r - r\<bar> \<le> 2 powi (ilog2 \<bar>r\<bar> - 53)"
    using double_error_abs[OF r(1)] e by (simp add: max_def)
  also have "\<dots> = 2 powi ilog2 \<bar>r\<bar> * 2 powi (- 53)"
    using power_int_add[of "2::rat" "ilog2 \<bar>r\<bar>" "- 53"] by simp
  also have "\<dots> \<le> \<bar>r\<bar> * 2 powi (- 53)"
    using ilog2_bounds(1)[OF r(2)] by (intro mult_right_mono) simp_all
  finally show ?thesis .
qed

lemma double_nonpos: "r \<le> 0 \<Longrightarrow> double r \<le> 0"
proof (cases "r = 0")
  case True then show ?thesis by (simp add: double_def)
next
  case False
  assume "r \<le> 0"
  let ?u = "(2::rat) powi (max (ilog2 \<bar>r\<bar>) (- 1022) - 52)"
  have u: "0 < ?u" by simp
  have "r / ?u \<le> of_int 0" using \<open>r \<le> 0\<close> u by (simp add: divide_le_0_iff)
  then have "roundEven (r / ?u) \<le> 0" by (rule roundEven_le)
  then have "of_int (roundEven (r / ?u)) * ?u \<le> 0"
    using u by (simp add: mult_le_0_iff)
  then show ?thesis using False by (simp add: double_unfold)
qed

lemma double_nonneg: "0 \<le> r \<Longrightarrow> 0 \<le> double r"
proof (cases "r = 0")
  case True then show ?thesis by (simp add: double_def)
next
  case False
  assume "0 \<le> r"
  let ?u = "(2::rat) powi (max (ilog2 \<bar>r\<bar>) (- 1022) - 52)"
  have u: "0 < ?u" by simp
  have "of_int 0 \<le> r / ?u" using \<open>0 \<le> r\<close> u by simp
  then have "0 \<le> roundEven (r / ?u)" by (rule roundEven_ge)
  then have "0 \<le> of_int (roundEven (r / ?u)) * ?u"
    using u by simp
  then show ?thesis using False by (simp add: double_unfold)
qed

text \<open>Rounding does not pass an integer that is itself a binary64 value.\<close>

lemma double_le_int:
  assumes le: "r \<le> of_int z" and z: "\<bar>z\<bar> < 2 ^ 53"
  shows "double r \<le> of_int z"
proof (cases "r = 0")
  case True
  then show ?thesis using le by (simp add: double_def)
next
  case False
  let ?e = "max (ilog2 \<bar>r\<bar>) (- 1022)"
  let ?u = "(2::rat) powi (?e - 52)"
  have u: "0 < ?u" by simp
  have d: "double r = of_int (roundEven (r / ?u)) * ?u" using False by (rule double_unfold)
  show ?thesis
  proof (cases "?e \<le> 52")
    case True
    define k where "k = z * 2 ^ nat (52 - ?e)"
    have "(2::rat) powi (52 - ?e) = 2 ^ nat (52 - ?e)" using True by (simp add: power_int_def)
    moreover have "(2::rat) powi (52 - ?e) = 1 / ?u"
      using power_int_minus_divide[of "2::rat" "?e - 52"] by simp
    ultimately have "1 / ?u = 2 ^ nat (52 - ?e)" by simp
    then have "of_int z * (1 / ?u) = of_int z * 2 ^ nat (52 - ?e)" by (simp only:)
    then have ku: "of_int z / ?u = of_int k" by (simp add: k_def)
    from le have "r / ?u \<le> of_int z / ?u" by (rule divide_right_mono) simp
    then have "roundEven (r / ?u) \<le> k" unfolding ku by (rule roundEven_le)
    then have "of_int (roundEven (r / ?u)) * ?u \<le> of_int k * ?u"
      using u by (simp add: mult_right_mono)
    also have "of_int k * ?u = of_int z" using ku u by (simp add: field_simps)
    finally show ?thesis by (simp only: d)
  next
    case False
    then have e: "52 < ?e" "?e = ilog2 \<bar>r\<bar>" by (simp_all add: max_def split: if_splits)
    have rpos: "0 < \<bar>r\<bar>" using \<open>r \<noteq> 0\<close> by simp
    have "53 \<le> ?e" using e(1) by simp
    then have "(2::rat) powi 53 \<le> 2 powi ?e" by (simp only: pow2_le_iff)
    also have "\<dots> \<le> \<bar>r\<bar>" using ilog2_bounds(1)[OF rpos] e(2) by simp
    finally have big: "(2::rat) ^ 53 \<le> \<bar>r\<bar>" by simp
    have zr: "\<bar>of_int z :: rat\<bar> < 2 ^ 53"
    proof -
      have "\<bar>of_int z :: rat\<bar> = of_int \<bar>z\<bar>" by simp
      also have "\<dots> < of_int (2 ^ 53)" using z by (simp only: of_int_less_iff)
      finally show ?thesis by simp
    qed
    have neg: "r < 0" using le big zr by linarith
    have "r \<le> - (2 powi ?e)" using ilog2_bounds(1)[OF rpos] e(2) neg by simp
    then have "r / ?u \<le> (- (2 powi ?e)) / ?u" by (rule divide_right_mono) simp
    moreover have "(2 powi ?e) / ?u = (2::rat) powi 52"
      using power_int_diff[of "2::rat" ?e "?e - 52"] by simp
    ultimately have "r / ?u \<le> of_int (- (2 ^ 52))" by simp
    then have "roundEven (r / ?u) \<le> - (2 ^ 52)" by (rule roundEven_le)
    then have "of_int (roundEven (r / ?u)) * ?u \<le> of_int (- (2 ^ 52)) * ?u"
      using u by (simp only: mult_right_mono of_int_le_iff)
    also have "of_int (- (2 ^ 52)) * ?u = - ((2::rat) powi 52 * ?u)" by simp
    also have "(2::rat) powi 52 * ?u = 2 powi ?e"
      using power_int_add[of "2::rat" 52 "?e - 52"] by simp
    also have "- ((2::rat) powi ?e) \<le> - (2 powi 53)"
      using \<open>(2::rat) powi 53 \<le> 2 powi ?e\<close> by (simp only: neg_le_iff_le)
    also have "\<dots> < of_int z" using zr by simp
    finally show ?thesis by (simp only: d)
  qed
qed

lemma double_bound:
  assumes "\<bar>r\<bar> \<le> B" "1 \<le> B"
  shows "\<bar>double r\<bar> \<le> 2 * B"
proof (cases "r = 0")
  case True
  then show ?thesis using assms by (simp add: double_def)
next
  case False
  let ?e = "max (ilog2 \<bar>r\<bar>) (- 1022)"
  have rpos: "0 < \<bar>r\<bar>" using False by simp
  have "(2::rat) powi (?e - 53) \<le> B"
  proof (cases "- 1022 \<le> ilog2 \<bar>r\<bar>")
    case True
    have "ilog2 \<bar>r\<bar> - 53 \<le> ilog2 \<bar>r\<bar>" by simp
    then have "(2::rat) powi (ilog2 \<bar>r\<bar> - 53) \<le> 2 powi ilog2 \<bar>r\<bar>" by (simp only: pow2_le_iff)
    also have "\<dots> \<le> \<bar>r\<bar>" by (rule ilog2_bounds(1)[OF rpos])
    finally show ?thesis using True assms(1) by (simp add: max_def)
  next
    case False
    have "(- 1022 - 53 :: int) \<le> 0" by simp
    then have "(2::rat) powi (- 1022 - 53) \<le> 2 powi 0" by (simp only: pow2_le_iff)
    then show ?thesis using False assms(2) by (simp add: max_def)
  qed
  with double_error_abs[OF \<open>r \<noteq> 0\<close>] have "\<bar>double r - r\<bar> \<le> B" by simp
  with assms(1) show ?thesis by linarith
qed

lemma round64_Num:
  assumes "\<bar>r\<bar> \<le> 2 ^ 1000"
  shows "round64 r = Num (double r)"
proof -
  have "\<bar>double r\<bar> \<le> 2 * 2 ^ 1000" using assms by (rule double_bound) simp
  also have "\<dots> < (2::rat) ^ 1024" by simp
  finally have "double r < 2 ^ 1024" "- (2 ^ 1024) < double r" by linarith+
  then show ?thesis by (simp add: round64_def Let_def)
qed

lemma floor_divide_numeral_rat:
  "\<lfloor>(numeral a :: rat) / numeral b\<rfloor> = numeral a div numeral b"
  using floor_divide_of_int_eq[of "numeral a" "numeral b", where ?'a = rat] by simp

lemma floor_minus_divide_numeral_rat:
  "\<lfloor>- ((numeral a :: rat) / numeral b)\<rfloor> = - numeral a div numeral b"
  using floor_divide_of_int_eq[of "- numeral a" "numeral b", where ?'a = rat] by simp

subsection \<open>Auxiliary facts\<close>

lemma toPixels_roundedSlot: "toPixels s = roundedSlot s"
  by (simp add: toPixels_def roundedSlot_def W_def H_def)

text \<open>The loop body makes the calls the specification describes for one shot.\<close>

lemma drawShot_clippedShot: "drawShot s img = clippedShot s img"
  by (simp add: drawShot_def clippedShot_def placement_def coverLeft_def coverTop_def
      coverWidth_def coverHeight_def coverScale_def Let_def)

lemma Promise_all_Inr: "Promise_all (map Inr xs) = Inr xs"
  by (induction xs) simp_all

lemma Promise_all_Inl:
  "\<exists>r\<in>set rs. isl r \<Longrightarrow> isl (Promise_all rs)"
proof (induction rs)
  case Nil then show ?case by simp
next
  case (Cons r rs)
  show ?case
  proof (cases r)
    case (Inl e) then show ?thesis by simp
  next
    case (Inr v)
    with Cons.prems have "\<exists>r\<in>set rs. isl r" by auto
    then have "isl (Promise_all rs)" by (rule Cons.IH)
    with Inr show ?thesis by (cases "Promise_all rs") simp_all
  qed
qed

lemma Promise_all_cases:
  "(\<exists>r\<in>set rs. isl r) \<or> (\<exists>vs. rs = map Inr vs)"
proof (induction rs)
  case Nil then show ?case by simp
next
  case (Cons r rs)
  then show ?case
  proof (cases r)
    case (Inl e) then show ?thesis by simp
  next
    case (Inr v)
    from Cons show ?thesis
    proof
      assume "\<exists>r\<in>set rs. isl r" then show ?thesis by simp
    next
      assume "\<exists>vs. rs = map Inr vs"
      then obtain vs where "rs = map Inr vs" ..
      with Inr have "r # rs = map Inr (v # vs)" by simp
      then show ?thesis by (intro disjI2 exI[of _ "v # vs"])
    qed
  qed
qed

lemma forEachShot_ok:
  "i + length imgs \<le> length pxs \<Longrightarrow>
   forEachShot P pxs imgs i cs =
     (cs @ concat (map (\<lambda>k. drawShot (pxs ! (i + k)) (imgs ! k)) [0..<length imgs]), None)"
proof (induction imgs arbitrary: i cs)
  case Nil then show ?case by simp
next
  case (Cons img imgs)
  have "[0..<length (img # imgs)] = 0 # map Suc [0..<length imgs]"
    by (simp add: upt_conv_Cons map_Suc_upt del: upt_Suc)
  then show ?case using Cons by (simp add: o_def del: upt_Suc)
qed

lemma forEachShot_short:
  "imgs \<noteq> [] \<Longrightarrow> length pxs < i + length imgs \<Longrightarrow>
   snd (forEachShot P pxs imgs i cs) = Some (TypeError (destructureMessage P))"
proof (induction imgs arbitrary: i cs)
  case Nil then show ?case by simp
next
  case (Cons img imgs)
  show ?case
  proof (cases "i < length pxs")
    case False then show ?thesis by simp
  next
    case True
    with Cons.prems have "imgs \<noteq> []" by (cases imgs) auto
    with Cons True show ?thesis by simp
  qed
qed

lemma forEachShot_four:
  assumes "length imgs = 4" "4 \<le> length pxs"
  shows "forEachShot P pxs imgs 0 cs =
    (cs @ drawShot (pxs ! 0) (imgs ! 0) @ drawShot (pxs ! 1) (imgs ! 1)
        @ drawShot (pxs ! 2) (imgs ! 2) @ drawShot (pxs ! 3) (imgs ! 3), None)"
proof -
  have "[0..<4] = [0, 1, 2, Suc 2]" by (simp add: upt_conv_Cons)
  then show ?thesis using forEachShot_ok[of 0 imgs pxs P cs] assms by simp
qed

lemma forEachShot_table:
  assumes li: "length imgs = 4" and tbl: "4 \<le> length (slotsOf frame)"
  shows "forEachShot P (map toPixels (slotsOf frame)) imgs 0 cs =
    (cs @ drawShot (roundedSlot (slotsOf frame ! 0)) (imgs ! 0)
        @ drawShot (roundedSlot (slotsOf frame ! 1)) (imgs ! 1)
        @ drawShot (roundedSlot (slotsOf frame ! 2)) (imgs ! 2)
        @ drawShot (roundedSlot (slotsOf frame ! 3)) (imgs ! 3), None)"
proof -
  have n: "map toPixels (slotsOf frame) ! k = roundedSlot (slotsOf frame ! k)" if "k < 4" for k
    using that tbl by (simp add: toPixels_roundedSlot)
  have "map toPixels (slotsOf frame) ! 0 = roundedSlot (slotsOf frame ! 0)"
    "map toPixels (slotsOf frame) ! 1 = roundedSlot (slotsOf frame ! 1)"
    "map toPixels (slotsOf frame) ! 2 = roundedSlot (slotsOf frame ! 2)"
    "map toPixels (slotsOf frame) ! 3 = roundedSlot (slotsOf frame ! 3)"
    by (simp_all add: n)
  then show ?thesis
    using forEachShot_four[of imgs "map toPixels (slotsOf frame)" P cs] li tbl
    by (simp del: One_nat_def)
qed

text \<open>Once the shots have loaded and been drawn, what is left is the overlay and the encoder.\<close>

lemma composeFinalPNG_drawn:
  assumes len: "length blobs = 4" and tbl: "4 \<le> length (slotsOf frame)" and ctx: "getContext P"
    and imgs: "map (blobToImage P) blobs = map Inr imgs"
  shows "snd (composeFinalPNG P blobs frame) =
     (case loadImage P (src frame) of
        Inl e \<Rightarrow> Inl e
      | Inr frameImg \<Rightarrow>
          (case toBlob P (composite (slotsOf frame) imgs frameImg) ''image/png'' of
             None \<Rightarrow> Inl (Error ''toBlob failed'')
           | Some b \<Rightarrow> Inr b))"
    and "loadImage P (src frame) = Inr frameImg \<Longrightarrow>
         fst (composeFinalPNG P blobs frame) = Some (composite (slotsOf frame) imgs frameImg)"
proof -
  have li: "length imgs = 4" using imgs len by (metis length_map)
  have pa: "Promise_all (map (blobToImage P) blobs) = Inr imgs"
    by (simp add: imgs Promise_all_Inr)
  note fe = forEachShot_table[OF li tbl, of P]
  have c: "\<lparr>canvas_width = W, canvas_height = H, calls = []\<rparr>\<lparr>calls :=
            ([FillStyle ''#ffffff'', FillRect 0 0 (of_nat W) (of_nat H)]
             @ drawShot (roundedSlot (slotsOf frame ! 0)) (imgs ! 0)
             @ drawShot (roundedSlot (slotsOf frame ! 1)) (imgs ! 1)
             @ drawShot (roundedSlot (slotsOf frame ! 2)) (imgs ! 2)
             @ drawShot (roundedSlot (slotsOf frame ! 3)) (imgs ! 3))
            @ [DrawImage (Image f) (Num 0) (Num 0) (Num (of_nat W)) (Num (of_nat H))]\<rparr>
     = composite (slotsOf frame) imgs f" for f
    by (simp add: composite_def W_def H_def drawShot_clippedShot)
  show "snd (composeFinalPNG P blobs frame) =
     (case loadImage P (src frame) of
        Inl e \<Rightarrow> Inl e
      | Inr frameImg \<Rightarrow>
          (case toBlob P (composite (slotsOf frame) imgs frameImg) ''image/png'' of
             None \<Rightarrow> Inl (Error ''toBlob failed'')
           | Some b \<Rightarrow> Inr b))"
    unfolding composeFinalPNG_def Let_def
    by (simp only: len ctx pa fe c simp_thms if_False if_True sum.case prod.case option.case)
       (simp split: sum.splits option.splits)
  show "fst (composeFinalPNG P blobs frame) = Some (composite (slotsOf frame) imgs frameImg)"
    if "loadImage P (src frame) = Inr frameImg"
    unfolding composeFinalPNG_def Let_def
    by (simp only: len ctx pa fe c that simp_thms if_False if_True sum.case prod.case option.case)
       (simp split: option.splits)
qed

lemma workingBrowser_simps:
  "getContext workingBrowser"
  "blobToImage workingBrowser (Blob n) = Inr \<lparr>width = 1280, height = 720, bitmap = 5 + n\<rparr>"
  "loadImage workingBrowser url = Inr \<lparr>width = 1280, height = 720, bitmap = length url\<rparr>"
  "toBlob workingBrowser c mime = Some (Blob (100 + sum_list (map contentId (calls c))))"
  "destructureMessage workingBrowser = ''Cannot destructure property of undefined''"
  by (simp_all add: workingBrowser_def blobToImage_def loadImage_def)

lemma contentId_clippedShot: "sum_list (map contentId (clippedShot s img)) = bitmap img"
  by (simp add: clippedShot_def)

lemma contentId_composite:
  "sum_list (map contentId (calls (composite t imgs f))) =
     bitmap (imgs ! 0) + bitmap (imgs ! 1) + bitmap (imgs ! 2) + bitmap (imgs ! 3) + bitmap f"
  by (simp add: composite_def contentId_clippedShot)

lemma slotsOf_frames:
  "slotsOf (getFrameConfig frame1) = DEFAULT_SLOTS"
  "slotsOf (getFrameConfig frame3) = DEFAULT_SLOTS"
  "length (slotsOf (getFrameConfig f)) = 4"
  by (cases f; simp add: slotsOf_def getFrameConfig_def FRAMES_def DEFAULT_SLOTS_def)+

subsection \<open>The frame table\<close>

text \<open>
  Claim C10. \<open>getFrameConfig\<close> is total on the type \<open>FrameId\<close>: for each of its four
  values the table \<open>FRAMES\<close> has exactly one entry with that id, the search finds it and
  \<open>getFrameConfig\<close> returns it, so the fallback to the first entry is never taken.
\<close>

theorem getFrameConfig_total:
  "length (filter (\<lambda>f. fid f = i) FRAMES) = 1
   \<and> find (\<lambda>f. fid f = i) FRAMES = Some (getFrameConfig i)
   \<and> fid (getFrameConfig i) = i
   \<and> getFrameConfig i \<in> set FRAMES"
  by (cases i) (simp_all add: FRAMES_def getFrameConfig_def)

subsection \<open>Composition\<close>

text \<open>
  Claim C1, as the code has it. For every list of exactly 4 shots and every frame
  configuration whose slot table (its own, or the default one when it has none) has at
  least four entries, in a browser that provides the 2D context, loads the four shots
  and the frame image and encodes the canvas, \<open>composeFinalPNG\<close> returns the PNG blob the
  encoder makes of the composite: a 1200 by 1800 canvas filled white, shot \<open>i\<close> drawn
  clipped into slot rectangle \<open>i\<close> for \<open>i = 0, 1, 2, 3\<close> in this order (each normalised
  coordinate scaled by 1200 or 1800 and rounded; each shot followed by the stroke of the
  slot outline), and the frame image drawn over the whole canvas last.
\<close>

theorem composeFinalPNG_composite:
  assumes len: "length blobs = 4" and tbl: "4 \<le> length (slotsOf frame)" and ctx: "getContext P"
    and imgs: "map (blobToImage P) blobs = map Inr imgs"
    and fimg: "loadImage P (src frame) = Inr frameImg"
    and enc: "toBlob P (composite (slotsOf frame) imgs frameImg) ''image/png'' = Some png"
  shows "composeFinalPNG P blobs frame = (Some (composite (slotsOf frame) imgs frameImg), Inr png)"
  using composeFinalPNG_drawn[OF len tbl ctx imgs] fimg enc
  by (simp add: prod_eq_iff)

text \<open>The four shots of a session composed with \<open>frame2\<close> in a working browser.\<close>

theorem composeFinalPNG_composite_witness:
  "length fourShots = 4 \<and> 4 \<le> length (slotsOf (getFrameConfig frame2)) \<and> getContext workingBrowser
   \<and> composeFinalPNG workingBrowser fourShots (getFrameConfig frame2) =
       (Some (composite (slotsOf (getFrameConfig frame2))
          [\<lparr>width = 1280, height = 720, bitmap = 5\<rparr>, \<lparr>width = 1280, height = 720, bitmap = 6\<rparr>,
           \<lparr>width = 1280, height = 720, bitmap = 7\<rparr>, \<lparr>width = 1280, height = 720, bitmap = 8\<rparr>]
          \<lparr>width = 1280, height = 720, bitmap = 18\<rparr>),
        Inr (Blob 144))"
  using composeFinalPNG_composite[of fourShots "getFrameConfig frame2" workingBrowser
     "[\<lparr>width = 1280, height = 720, bitmap = 5\<rparr>, \<lparr>width = 1280, height = 720, bitmap = 6\<rparr>,
           \<lparr>width = 1280, height = 720, bitmap = 7\<rparr>, \<lparr>width = 1280, height = 720, bitmap = 8\<rparr>]"
     "\<lparr>width = 1280, height = 720, bitmap = 18\<rparr>" "Blob 144"]
  by (simp add: fourShots_def workingBrowser_simps contentId_composite slotsOf_frames)
     (simp add: getFrameConfig_def FRAMES_def)

text \<open>
  Claim C1 as stated ranges over every frame configuration. A configuration whose table
  is empty makes the loop throw a \<open>TypeError\<close> at the first shot, after the white fill:
  no composite is produced although the four shots load and the browser works.
\<close>

theorem composeFinalPNG_composite_counterexample:
  "length fourShots = 4 \<and>
   composeFinalPNG workingBrowser fourShots emptyTableFrame =
     (Some \<lparr>canvas_width = 1200, canvas_height = 1800,
            calls = [FillStyle ''#ffffff'', FillRect 0 0 1200 1800]\<rparr>,
      Inl (TypeError ''Cannot destructure property of undefined''))"
  by (simp add: fourShots_def composeFinalPNG_def Let_def workingBrowser_simps emptyTableFrame_def
      slotsOf_def W_def H_def)

text \<open>
  Claim C2, as the code has it. \<open>composeFinalPNG\<close> fails if and only if the list of
  shots does not have length exactly 4, or the 2D context is unavailable, or a shot fails
  to load, or the slot table of the frame has fewer than four entries, or the frame image
  fails to load, or the encoder yields no blob for the finished composite. In particular,
  for every list whose length is not 4 it fails with the error "Need exactly 4 shots"
  without having created a canvas.
\<close>

theorem composeFinalPNG_fails_iff:
  "(isl (snd (composeFinalPNG P blobs frame)) \<longleftrightarrow>
      length blobs \<noteq> 4 \<or> \<not> getContext P \<or> (\<exists>b\<in>set blobs. isl (blobToImage P b))
      \<or> length (slotsOf frame) < 4
      \<or> isl (loadImage P (src frame))
      \<or> (\<exists>imgs frameImg. map (blobToImage P) blobs = map Inr imgs
            \<and> loadImage P (src frame) = Inr frameImg
            \<and> toBlob P (composite (slotsOf frame) imgs frameImg) ''image/png'' = None))
   \<and> (length blobs \<noteq> 4 \<longrightarrow>
        composeFinalPNG P blobs frame = (None, Inl (Error ''Need exactly 4 shots'')))"
proof (intro conjI impI)
  show "composeFinalPNG P blobs frame = (None, Inl (Error ''Need exactly 4 shots''))"
    if "length blobs \<noteq> 4"
    using that by (simp add: composeFinalPNG_def)
  show "isl (snd (composeFinalPNG P blobs frame)) \<longleftrightarrow>
      length blobs \<noteq> 4 \<or> \<not> getContext P \<or> (\<exists>b\<in>set blobs. isl (blobToImage P b))
      \<or> length (slotsOf frame) < 4
      \<or> isl (loadImage P (src frame))
      \<or> (\<exists>imgs frameImg. map (blobToImage P) blobs = map Inr imgs
            \<and> loadImage P (src frame) = Inr frameImg
            \<and> toBlob P (composite (slotsOf frame) imgs frameImg) ''image/png'' = None)"
    (is "?fails \<longleftrightarrow> ?causes")
  proof (cases "length blobs \<noteq> 4 \<or> \<not> getContext P")
    case True
    then have ?fails by (auto simp: composeFinalPNG_def Let_def)
    with True show ?thesis by blast
  next
    case False
    then have len: "length blobs = 4" and ctx: "getContext P" by simp_all
    from Promise_all_cases[of "map (blobToImage P) blobs"] show ?thesis
    proof
      assume bad: "\<exists>r\<in>set (map (blobToImage P) blobs). isl r"
      then have "isl (Promise_all (map (blobToImage P) blobs))" by (rule Promise_all_Inl)
      then have ?fails
        using len ctx by (auto simp: composeFinalPNG_def Let_def split: sum.splits)
      moreover from bad have "\<exists>b\<in>set blobs. isl (blobToImage P b)" by auto
      ultimately show ?thesis by blast
    next
      assume "\<exists>imgs. map (blobToImage P) blobs = map Inr imgs"
      then obtain imgs where imgs: "map (blobToImage P) blobs = map Inr imgs" ..
      have li: "length imgs = 4" using imgs len by (metis length_map)
      have good: "\<not> (\<exists>b\<in>set blobs. isl (blobToImage P b))"
      proof
        assume "\<exists>b\<in>set blobs. isl (blobToImage P b)"
        then have "\<exists>r\<in>set (map (blobToImage P) blobs). isl r" by auto
        then show False unfolding imgs by auto
      qed
      show ?thesis
      proof (cases "length (slotsOf frame) < 4")
        case True
        have "imgs \<noteq> []" using li by auto
        then have "snd (forEachShot P (map toPixels (slotsOf frame)) imgs 0 cs) =
            Some (TypeError (destructureMessage P))" for cs
          using True li by (intro forEachShot_short) simp_all
        then obtain cs2 where
          "forEachShot P (map toPixels (slotsOf frame)) imgs 0
             [FillStyle ''#ffffff'', FillRect 0 0 (of_nat W) (of_nat H)] =
           (cs2, Some (TypeError (destructureMessage P)))"
          by (metis prod.collapse)
        then have ?fails
          using len ctx by (simp add: composeFinalPNG_def Let_def imgs Promise_all_Inr)
        with True show ?thesis by blast
      next
        case False
        then have tbl: "4 \<le> length (slotsOf frame)" by simp
        note r = composeFinalPNG_drawn(1)[OF len tbl ctx imgs]
        show ?thesis
        proof (cases "loadImage P (src frame)")
          case (Inl e)
          then show ?thesis using r by simp
        next
          case (Inr frameImg)
          have uniq: "imgs' = imgs" if "map (blobToImage P) blobs = map Inr imgs'" for imgs'
            using that imgs by (simp add: inj_map_eq_map)
          show ?thesis
          proof (cases "toBlob P (composite (slotsOf frame) imgs frameImg) ''image/png''")
            case None
            then have ?fails using r Inr by simp
            moreover have ?causes using None Inr imgs by blast
            ultimately show ?thesis by blast
          next
            case (Some b)
            then have "\<not> ?fails" using r Inr by simp
            moreover have "\<not> ?causes"
              using Some Inr len ctx good False uniq by auto
            ultimately show ?thesis by blast
          qed
        qed
      qed
    qed
  qed
qed

text \<open>Two shots are refused before any canvas exists; four shots with \<open>frame4\<close> succeed.\<close>

theorem composeFinalPNG_fails_iff_witness:
  "length [Blob 0, Blob 1] \<noteq> 4 \<and>
   composeFinalPNG workingBrowser [Blob 0, Blob 1] (getFrameConfig frame1) =
     (None, Inl (Error ''Need exactly 4 shots'')) \<and>
   \<not> isl (snd (composeFinalPNG workingBrowser fourShots (getFrameConfig frame4)))"
  using composeFinalPNG_fails_iff[of workingBrowser "[Blob 0, Blob 1]" "getFrameConfig frame1"]
    composeFinalPNG_fails_iff[of workingBrowser fourShots "getFrameConfig frame4"]
  by (simp add: fourShots_def workingBrowser_simps slotsOf_frames)

text \<open>
  Claim C2 as stated lists the length of the shots, the image loads, the canvas and the
  encoder as the only causes. With an empty slot table the call fails and none of them
  holds.
\<close>

theorem composeFinalPNG_fails_iff_counterexample:
  "\<not> (isl (snd (composeFinalPNG workingBrowser fourShots emptyTableFrame)) \<longleftrightarrow>
        length fourShots \<noteq> 4
        \<or> (\<exists>b\<in>set fourShots. isl (blobToImage workingBrowser b))
        \<or> isl (loadImage workingBrowser (src emptyTableFrame))
        \<or> \<not> getContext workingBrowser
        \<or> (\<exists>c. toBlob workingBrowser c ''image/png'' = None))"
  by (simp add: fourShots_def composeFinalPNG_def Let_def workingBrowser_simps emptyTableFrame_def
      slotsOf_def)

subsection \<open>The shipped tables in binary64\<close>

lemma round64_eval:
  assumes "2 powi e \<le> \<bar>r\<bar>" "\<bar>r\<bar> < 2 powi (e + 1)" "- 1022 \<le> e" "e \<le> 999"
  shows "round64 r = Num (of_int (roundEven (r / 2 powi (e - 52))) * 2 powi (e - 52))"
proof -
  have "e + 1 \<le> 1000" using assms(4) by simp
  then have "(2::rat) powi (e + 1) \<le> 2 powi 1000" by (simp only: pow2_le_iff)
  with assms(2) have "\<bar>r\<bar> \<le> 2 ^ 1000" by simp
  then have "round64 r = Num (double r)" by (rule round64_Num)
  then show ?thesis using double_eval[OF assms(1,2,3)] by simp
qed

text \<open>
  The literals of the first default slot and of the first slot of \<open>frame2\<close>, their
  products with 1200 and 1800, and the operations of the placement of a 1280 by 720
  shot in these two slots.
\<close>

lemma eval_1: "round64 0.075 = Num (5404319552844595 / 72057594037927936)"
  apply (subst round64_eval[where e = "-4"])
     apply (simp_all add: roundEven_def Let_def floor_divide_numeral_rat floor_minus_divide_numeral_rat)
  done

lemma eval_2: "js_mul (Num (5404319552844595 / 72057594037927936)) (Num 1200) = Num 90"
  apply (simp only: js_mul.simps)
  apply (subst round64_eval[where e = "6"])
     apply (simp_all add: roundEven_def Let_def floor_divide_numeral_rat floor_minus_divide_numeral_rat)
  done

lemma eval_3: "round64 0.2 = Num (3602879701896397 / 18014398509481984)"
  apply (subst round64_eval[where e = "-3"])
     apply (simp_all add: roundEven_def Let_def floor_divide_numeral_rat floor_minus_divide_numeral_rat)
  done

lemma eval_4: "js_mul (Num (3602879701896397 / 18014398509481984)) (Num 1800) = Num 360"
  apply (simp only: js_mul.simps)
  apply (subst round64_eval[where e = "8"])
     apply (simp_all add: roundEven_def Let_def floor_divide_numeral_rat floor_minus_divide_numeral_rat)
  done

lemma eval_5: "round64 0.425 = Num (7656119366529843 / 18014398509481984)"
  apply (subst round64_eval[where e = "-2"])
     apply (simp_all add: roundEven_def Let_def floor_divide_numeral_rat floor_minus_divide_numeral_rat)
  done

lemma eval_6: "js_mul (Num (7656119366529843 / 18014398509481984)) (Num 1200) = Num 510"
  apply (simp only: js_mul.simps)
  apply (subst round64_eval[where e = "8"])
     apply (simp_all add: roundEven_def Let_def floor_divide_numeral_rat floor_minus_divide_numeral_rat)
  done

lemma eval_7: "round64 0.2833333333 = Num (2552039788543041 / 9007199254740992)"
  apply (subst round64_eval[where e = "-2"])
     apply (simp_all add: roundEven_def Let_def floor_divide_numeral_rat floor_minus_divide_numeral_rat)
  done

lemma eval_8: "js_mul (Num (2552039788543041 / 9007199254740992)) (Num 1800) = Num (8972014881596629 / 17592186044416)"
  apply (simp only: js_mul.simps)
  apply (subst round64_eval[where e = "8"])
     apply (simp_all add: roundEven_def Let_def floor_divide_numeral_rat floor_minus_divide_numeral_rat)
  done

lemma eval_9: "round64 0.105 = Num (7566047373982433 / 72057594037927936)"
  apply (subst round64_eval[where e = "-4"])
     apply (simp_all add: roundEven_def Let_def floor_divide_numeral_rat floor_minus_divide_numeral_rat)
  done

lemma eval_10: "js_mul (Num (7566047373982433 / 72057594037927936)) (Num 1200) = Num 126"
  apply (simp only: js_mul.simps)
  apply (subst round64_eval[where e = "6"])
     apply (simp_all add: roundEven_def Let_def floor_divide_numeral_rat floor_minus_divide_numeral_rat)
  done

lemma eval_11: "round64 0.3261 = Num (5874495353942075 / 18014398509481984)"
  apply (subst round64_eval[where e = "-2"])
     apply (simp_all add: roundEven_def Let_def floor_divide_numeral_rat floor_minus_divide_numeral_rat)
  done

lemma eval_12: "js_mul (Num (5874495353942075 / 18014398509481984)) (Num 1800) = Num (1290782670543913 / 2199023255552)"
  apply (simp only: js_mul.simps)
  apply (subst round64_eval[where e = "9"])
     apply (simp_all add: roundEven_def Let_def floor_divide_numeral_rat floor_minus_divide_numeral_rat)
  done

lemma eval_13: "round64 0.3675 = Num (6620291452234629 / 18014398509481984)"
  apply (subst round64_eval[where e = "-2"])
     apply (simp_all add: roundEven_def Let_def floor_divide_numeral_rat floor_minus_divide_numeral_rat)
  done

lemma eval_14: "js_mul (Num (6620291452234629 / 18014398509481984)) (Num 1200) = Num 441"
  apply (simp only: js_mul.simps)
  apply (subst round64_eval[where e = "8"])
     apply (simp_all add: roundEven_def Let_def floor_divide_numeral_rat floor_minus_divide_numeral_rat)
  done

lemma eval_15: "round64 0.2433 = Num (8765806314713933 / 36028797018963968)"
  apply (subst round64_eval[where e = "-3"])
     apply (simp_all add: roundEven_def Let_def floor_divide_numeral_rat floor_minus_divide_numeral_rat)
  done

lemma eval_16: "js_mul (Num (8765806314713933 / 36028797018963968)) (Num 1800) = Num (7704321956291543 / 17592186044416)"
  apply (simp only: js_mul.simps)
  apply (subst round64_eval[where e = "8"])
     apply (simp_all add: roundEven_def Let_def floor_divide_numeral_rat floor_minus_divide_numeral_rat)
  done

lemma eval_17: "round64 0.3242 = Num (5840267996774059 / 18014398509481984)"
  apply (subst round64_eval[where e = "-2"])
     apply (simp_all add: roundEven_def Let_def floor_divide_numeral_rat floor_minus_divide_numeral_rat)
  done

lemma eval_18: "js_div (Num 510) (Num 1280) = Num (51 / 128)"
  apply (simp only: js_div.simps)
  apply (subst round64_eval[where e = "-2"])
     apply (simp_all add: roundEven_def Let_def floor_divide_numeral_rat floor_minus_divide_numeral_rat)
  done

lemma eval_19: "js_div (Num 510) (Num 720) = Num (6380099472108203 / 9007199254740992)"
  apply (simp only: js_div.simps)
  apply (subst round64_eval[where e = "-1"])
     apply (simp_all add: roundEven_def Let_def floor_divide_numeral_rat floor_minus_divide_numeral_rat)
  done

lemma eval_20: "js_mul (Num 1280) (Num (6380099472108203 / 9007199254740992)) = Num (3987562170067627 / 4398046511104)"
  apply (simp only: js_mul.simps)
  apply (subst round64_eval[where e = "9"])
     apply (simp_all add: roundEven_def Let_def floor_divide_numeral_rat floor_minus_divide_numeral_rat)
  done

lemma eval_21: "js_mul (Num 720) (Num (6380099472108203 / 9007199254740992)) = Num 510"
  apply (simp only: js_mul.simps)
  apply (subst round64_eval[where e = "8"])
     apply (simp_all add: roundEven_def Let_def floor_divide_numeral_rat floor_minus_divide_numeral_rat)
  done

lemma eval_22: "js_add (Num 510) (Num (- (3987562170067627 / 4398046511104))) = Num (- (1744558449404587 / 4398046511104))"
  apply (simp only: js_add.simps)
  apply (subst round64_eval[where e = "8"])
     apply (simp_all add: roundEven_def Let_def floor_divide_numeral_rat floor_minus_divide_numeral_rat)
  done

lemma eval_23: "js_div (Num (- (1744558449404587 / 4398046511104))) (Num 2) = Num (- (1744558449404587 / 8796093022208))"
  apply (simp only: js_div.simps)
  apply (subst round64_eval[where e = "7"])
     apply (simp_all add: roundEven_def Let_def floor_divide_numeral_rat floor_minus_divide_numeral_rat)
  done

lemma eval_24: "js_add (Num 90) (Num (- (1744558449404587 / 8796093022208))) = Num (- (952910077405867 / 8796093022208))"
  apply (simp only: js_add.simps)
  apply (subst round64_eval[where e = "6"])
     apply (simp_all add: roundEven_def Let_def floor_divide_numeral_rat floor_minus_divide_numeral_rat)
  done

lemma eval_25: "js_add (Num 510) (Num (- 510)) = Num 0"
  by (simp add: round64_def double_def)

lemma eval_26: "js_div (Num 0) (Num 2) = Num 0"
  by (simp add: round64_def double_def)

lemma eval_27: "js_add (Num 360) (Num 0) = Num 360"
  apply (simp only: js_add.simps)
  apply (subst round64_eval[where e = "8"])
     apply (simp_all add: roundEven_def Let_def floor_divide_numeral_rat floor_minus_divide_numeral_rat)
  done

lemma eval_28: "js_div (Num 441) (Num 1280) = Num (6206523236469965 / 18014398509481984)"
  apply (simp only: js_div.simps)
  apply (subst round64_eval[where e = "-2"])
     apply (simp_all add: roundEven_def Let_def floor_divide_numeral_rat floor_minus_divide_numeral_rat)
  done

lemma eval_29: "js_div (Num 438) (Num 720) = Num (5479379546634103 / 9007199254740992)"
  apply (simp only: js_div.simps)
  apply (subst round64_eval[where e = "-1"])
     apply (simp_all add: roundEven_def Let_def floor_divide_numeral_rat floor_minus_divide_numeral_rat)
  done

lemma eval_30: "js_mul (Num 1280) (Num (5479379546634103 / 9007199254740992)) = Num (6849224433292629 / 8796093022208)"
  apply (simp only: js_mul.simps)
  apply (subst round64_eval[where e = "9"])
     apply (simp_all add: roundEven_def Let_def floor_divide_numeral_rat floor_minus_divide_numeral_rat)
  done

lemma eval_31: "js_mul (Num 720) (Num (5479379546634103 / 9007199254740992)) = Num (7705377487454207 / 17592186044416)"
  apply (simp only: js_mul.simps)
  apply (subst round64_eval[where e = "8"])
     apply (simp_all add: roundEven_def Let_def floor_divide_numeral_rat floor_minus_divide_numeral_rat)
  done

lemma eval_32: "js_add (Num 441) (Num (- (6849224433292629 / 8796093022208))) = Num (- (2970147410498901 / 8796093022208))"
  apply (simp only: js_add.simps)
  apply (subst round64_eval[where e = "8"])
     apply (simp_all add: roundEven_def Let_def floor_divide_numeral_rat floor_minus_divide_numeral_rat)
  done

lemma eval_33: "js_div (Num (- (2970147410498901 / 8796093022208))) (Num 2) = Num (- (2970147410498901 / 17592186044416))"
  apply (simp only: js_div.simps)
  apply (subst round64_eval[where e = "7"])
     apply (simp_all add: roundEven_def Let_def floor_divide_numeral_rat floor_minus_divide_numeral_rat)
  done

lemma eval_34: "js_add (Num 126) (Num (- (2970147410498901 / 17592186044416))) = Num (- (753531968902485 / 17592186044416))"
  apply (simp only: js_add.simps)
  apply (subst round64_eval[where e = "5"])
     apply (simp_all add: roundEven_def Let_def floor_divide_numeral_rat floor_minus_divide_numeral_rat)
  done

lemma eval_35: "js_add (Num 438) (Num (- (7705377487454207 / 17592186044416))) = Num (1 / 17592186044416)"
  apply (simp only: js_add.simps)
  apply (subst round64_eval[where e = "-44"])
     apply (simp_all add: roundEven_def Let_def floor_divide_numeral_rat floor_minus_divide_numeral_rat)
  done

lemma eval_36: "js_div (Num (1 / 17592186044416)) (Num 2) = Num (1 / 35184372088832)"
  apply (simp only: js_div.simps)
  apply (subst round64_eval[where e = "-45"])
     apply (simp_all add: roundEven_def Let_def floor_divide_numeral_rat floor_minus_divide_numeral_rat)
  done

lemma eval_37: "js_add (Num 587) (Num (1 / 35184372088832)) = Num 587"
  apply (simp only: js_add.simps)
  apply (subst round64_eval[where e = "9"])
     apply (simp_all add: roundEven_def Let_def floor_divide_numeral_rat floor_minus_divide_numeral_rat)
  done

lemma max_1: "max (51 / 128) (6380099472108203 / 9007199254740992) = ((6380099472108203 / 9007199254740992)::rat)"
  by simp

lemma max_2: "max (6206523236469965 / 18014398509481984) (5479379546634103 / 9007199254740992) = ((5479379546634103 / 9007199254740992)::rat)"
  by simp

lemmas evals = eval_1 eval_2 eval_3 eval_4 eval_5 eval_6 eval_7 eval_8 eval_9 eval_10 eval_11 eval_12 eval_13 eval_14 eval_15 eval_16 eval_17 eval_18 eval_19 eval_20 eval_21 eval_22 eval_23 eval_24 eval_25 eval_26 eval_27 eval_28 eval_29 eval_30 eval_31 eval_32 eval_33 eval_34 eval_35 eval_36 eval_37 max_1 max_2

lemma default_slot_0:
  "slotsOf (getFrameConfig frame1) ! 0 =
     \<lparr>slot_x = round64 0.075, slot_y = round64 0.2,
      slot_w = round64 0.425, slot_h = round64 0.2833333333\<rparr>"
  by (simp add: slotsOf_def getFrameConfig_def FRAMES_def DEFAULT_SLOTS_def)

lemma frame2_slot_0:
  "slotsOf (getFrameConfig frame2) ! 0 =
     \<lparr>slot_x = round64 0.105, slot_y = round64 0.3261,
      slot_w = round64 0.3675, slot_h = round64 0.2433\<rparr>"
  by (simp add: slotsOf_def getFrameConfig_def FRAMES_def)

lemma Math_round_int: "Math_round (Num (of_int z)) = Num (of_int z)"
proof -
  have "\<lfloor>rat_of_int z + 1 / 2\<rfloor> = z" by (rule floor_unique) simp_all
  then show ?thesis by simp
qed

lemma roundedSlot_default_0:
  "roundedSlot (slotsOf (getFrameConfig frame1) ! 0) =
     \<lparr>slot_x = Num 90, slot_y = Num 360, slot_w = Num 510, slot_h = Num 510\<rparr>"
  apply (simp only: default_slot_0 roundedSlot_def SlotRect.select_convs evals)
  apply (simp add: floor_divide_numeral_rat)
  done

lemma roundedSlot_frame2_0:
  "roundedSlot (slotsOf (getFrameConfig frame2) ! 0) =
     \<lparr>slot_x = Num 126, slot_y = Num 587, slot_w = Num 441, slot_h = Num 438\<rparr>"
  apply (simp only: frame2_slot_0 roundedSlot_def SlotRect.select_convs evals)
  apply (simp add: floor_divide_numeral_rat)
  done

lemma placement_default_0:
  "placement \<lparr>slot_x = Num 90, slot_y = Num 360, slot_w = Num 510, slot_h = Num 510\<rparr>
     \<lparr>width = 1280, height = 720, bitmap = b\<rparr> =
   (Num (- (952910077405867 / 8796093022208)), Num 360, Num (3987562170067627 / 4398046511104), Num 510)"
  by (simp only: placement_def Let_def SlotRect.select_convs image.select_convs of_nat_numeral
      Math_max.simps js_sub_def js_neg.simps evals)

lemma placement_frame2_0:
  "placement \<lparr>slot_x = Num 126, slot_y = Num 587, slot_w = Num 441, slot_h = Num 438\<rparr>
     \<lparr>width = 1280, height = 720, bitmap = b\<rparr> =
   (Num (- (753531968902485 / 17592186044416)), Num 587, Num (6849224433292629 / 8796093022208), Num (7705377487454207 / 17592186044416))"
  by (simp only: placement_def Let_def SlotRect.select_convs image.select_convs of_nat_numeral
      Math_max.simps js_sub_def js_neg.simps evals)

subsection \<open>Operations with a finite result\<close>

lemma js_div_Num:
  "b \<noteq> 0 \<Longrightarrow> \<bar>a / b\<bar> \<le> 2 ^ 1000 \<Longrightarrow> js_div (Num a) (Num b) = Num (double (a / b))"
  by (simp add: round64_Num)

lemma js_mul_Num:
  "\<bar>a * b\<bar> \<le> 2 ^ 1000 \<Longrightarrow> js_mul (Num a) (Num b) = Num (double (a * b))"
  by (simp add: round64_Num)

lemma js_add_Num:
  "\<bar>a + b\<bar> \<le> 2 ^ 1000 \<Longrightarrow> js_add (Num a) (Num b) = Num (double (a + b))"
  by (simp add: round64_Num)

lemma js_sub_Num:
  "\<bar>a - b\<bar> \<le> 2 ^ 1000 \<Longrightarrow> js_sub (Num a) (Num b) = Num (double (a - b))"
  by (simp add: js_sub_def round64_Num)

lemma double_lower:
  assumes "2 powi (- 1022) \<le> r"
  shows "r * (1 - 2 powi (- 53)) \<le> double r"
proof -
  have r: "0 < r" using assms by (rule less_le_trans[rotated]) simp
  then have "2 powi (- 1022) \<le> \<bar>r\<bar>" using assms by simp
  from double_error_rel[OF this] r have "\<bar>double r - r\<bar> \<le> r * 2 powi (- 53)" by simp
  then have "r - r * 2 powi (- 53) \<le> double r" by linarith
  then show ?thesis by (simp add: algebra_simps)
qed

lemma double_upper:
  assumes "2 powi (- 1022) \<le> r"
  shows "double r \<le> r * (1 + 2 powi (- 53))"
proof -
  have r: "0 < r" using assms by (rule less_le_trans[rotated]) simp
  then have "2 powi (- 1022) \<le> \<bar>r\<bar>" using assms by simp
  from double_error_rel[OF this] r have "\<bar>double r - r\<bar> \<le> r * 2 powi (- 53)" by simp
  then have "double r \<le> r + r * 2 powi (- 53)" by linarith
  then show ?thesis by (simp add: algebra_simps)
qed

text \<open>
  The quotient of a positive integer below \<open>2 ^ 53\<close> by an image dimension: finite,
  positive, and within one rounding of the exact quotient.
\<close>

lemma quotient_bounds:
  fixes w :: int and n :: nat
  assumes w: "0 < w" "w < 2 ^ 53" and n: "0 < n" "n < 2 ^ 32"
  shows "js_div (Num (of_int w)) (Num (of_nat n)) = Num (double (of_int w / of_nat n))"
    and "of_int w / of_nat n * (1 - 2 powi (- 53)) \<le> double (of_int w / of_nat n)"
    and "double (of_int w / of_nat n) \<le> 2 ^ 54"
    and "0 < double (of_int w / of_nat n)"
proof -
  let ?W = "rat_of_int w" and ?N = "rat_of_nat n"
  let ?q = "?W / ?N"
  have W: "1 \<le> ?W" "?W \<le> 2 ^ 53"
  proof -
    have "1 \<le> w" using w by simp
    then have "rat_of_int 1 \<le> ?W" by (simp only: of_int_le_iff)
    then show "1 \<le> ?W" by simp
    have "w \<le> 2 ^ 53" using w by simp
    then have "?W \<le> rat_of_int (2 ^ 53)" by (simp only: of_int_le_iff)
    then show "?W \<le> 2 ^ 53" by simp
  qed
  have N: "1 \<le> ?N" "?N \<le> 2 ^ 32"
  proof -
    have "1 \<le> n" using n by simp
    then have "rat_of_nat 1 \<le> ?N" by (simp only: of_nat_le_iff)
    then show "1 \<le> ?N" by simp
    have "n \<le> 2 ^ 32" using n by simp
    then have "?N \<le> rat_of_nat (2 ^ 32)" by (simp only: of_nat_le_iff)
    then show "?N \<le> 2 ^ 32" by simp
  qed
  have qu: "?q \<le> 2 ^ 53"
  proof -
    have "?q \<le> ?W / 1" using W N by (intro divide_left_mono) simp_all
    then show ?thesis using W by simp
  qed
  have ql: "1 / 2 ^ 32 \<le> ?q"
  proof -
    have "1 / 2 ^ 32 \<le> 1 / ?N" using N by (intro divide_left_mono) simp_all
    also have "\<dots> \<le> ?W / ?N" using W N by (intro divide_right_mono) simp_all
    finally show ?thesis .
  qed
  have small: "(2::rat) powi (- 1022) \<le> 1 / 2 ^ 32"
  proof -
    have "(- 1022 :: int) \<le> - 32" by simp
    then have "(2::rat) powi (- 1022) \<le> 2 powi (- 32)" by (simp only: pow2_le_iff)
    then show ?thesis by (simp add: power_int_minus_divide)
  qed
  have norm: "(2::rat) powi (- 1022) \<le> ?q" using small ql by linarith
  have qpos: "0 < ?q" using ql by (rule less_le_trans[rotated]) simp
  have fin: "\<bar>?q\<bar> \<le> 2 ^ 1000"
  proof -
    have "\<bar>?q\<bar> = ?q" using qpos by (rule abs_of_pos)
    also have "?q \<le> 2 ^ 53" by (rule qu)
    also have "(2::rat) ^ 53 \<le> 2 ^ 1000" by (intro power_increasing) simp_all
    finally show ?thesis .
  qed
  have "?N \<noteq> 0" using N by simp
  then show "js_div (Num ?W) (Num ?N) = Num (double ?q)" using fin by (rule js_div_Num)
  show lo: "?q * (1 - 2 powi (- 53)) \<le> double ?q" using norm by (rule double_lower)
  have "double ?q \<le> ?q * (1 + 2 powi (- 53))" using norm by (rule double_upper)
  also have "\<dots> \<le> 2 ^ 53 * (1 + 2 powi (- 53))"
    using qu by (intro mult_right_mono) simp_all
  also have "\<dots> \<le> 2 ^ 54" by (simp add: power_int_minus_divide)
  finally show "double ?q \<le> 2 ^ 54" .
  have "0 < ?q * (1 - 2 powi (- 53))"
    using qpos by (intro mult_pos_pos) (simp_all add: power_int_minus_divide)
  with lo show "0 < double ?q" by linarith
qed

lemma two_roundings:
  "(1 - 2 powi (- 52) :: rat) \<le> (1 - 2 powi (- 53)) * (1 - 2 powi (- 53))"
proof -
  define u :: rat where "u = 2 powi (- 53)"
  have "(2::rat) powi (- 53 + 1) = 2 powi (- 53) * 2 powi 1" by (rule power_int_add) simp
  then have d: "(2::rat) powi (- 52) = 2 * u" by (simp add: u_def)
  have "1 - 2 * u \<le> (1 - u) * (1 - u)"
  proof -
    have "(1 - u) * (1 - u) = 1 - 2 * u + u * u" by (simp add: algebra_simps)
    moreover have "0 \<le> u * u" by simp
    ultimately show ?thesis by linarith
  qed
  then show ?thesis unfolding d u_def .
qed

text \<open>
  The drawn size along one axis, for any scale that is at least the rounded quotient of
  this axis: finite, and short of the slot size by at most two roundings.
\<close>

lemma drawn_size:
  fixes w :: int and n :: nat and sc :: rat
  assumes w: "0 < w" "w < 2 ^ 53" and n: "0 < n" "n < 2 ^ 32"
    and sc: "double (of_int w / of_nat n) \<le> sc" "sc \<le> 2 ^ 54"
  shows "js_mul (Num (of_nat n)) (Num sc) = Num (double (of_nat n * sc))"
    and "of_int w * (1 - 2 powi (- 52)) \<le> double (of_nat n * sc)"
    and "\<bar>double (of_nat n * sc)\<bar> \<le> 2 ^ 88"
proof -
  let ?W = "rat_of_int w" and ?N = "rat_of_nat n"
  let ?u = "(2::rat) powi (- 53)"
  note q = quotient_bounds[OF w n]
  have u: "0 \<le> 1 - ?u" "1 - ?u \<le> 1" "1 / 2 \<le> 1 - ?u"
    by (simp_all add: power_int_minus_divide)
  have W: "1 \<le> ?W"
  proof -
    have "1 \<le> w" using w by simp
    then have "rat_of_int 1 \<le> ?W" by (simp only: of_int_le_iff)
    then show ?thesis by simp
  qed
  have N: "1 \<le> ?N" "?N \<le> 2 ^ 32"
  proof -
    have "1 \<le> n" using n by simp
    then have "rat_of_nat 1 \<le> ?N" by (simp only: of_nat_le_iff)
    then show "1 \<le> ?N" by simp
    have "n \<le> 2 ^ 32" using n by simp
    then have "?N \<le> rat_of_nat (2 ^ 32)" by (simp only: of_nat_le_iff)
    then show "?N \<le> 2 ^ 32" by simp
  qed
  have scpos: "0 < sc" using q(4) sc(1) by linarith
  let ?p = "?N * sc"
  have plo: "?W * (1 - ?u) \<le> ?p"
  proof -
    have "?W * (1 - ?u) = ?N * (?W / ?N * (1 - ?u))" using N by simp
    also have "\<dots> \<le> ?N * double (?W / ?N)"
      using q(2) N by (intro mult_left_mono) simp_all
    also have "\<dots> \<le> ?N * sc" using sc(1) N by (intro mult_left_mono) simp_all
    finally show ?thesis .
  qed
  have half: "1 / 2 \<le> ?p"
  proof -
    have "1 * (1 / 2) \<le> ?W * (1 - ?u)" using W u by (intro mult_mono) simp_all
    with plo show ?thesis by simp
  qed
  have norm: "(2::rat) powi (- 1022) \<le> ?p"
  proof -
    have "(- 1022 :: int) \<le> - 1" by simp
    then have "(2::rat) powi (- 1022) \<le> 2 powi (- 1)" by (simp only: pow2_le_iff)
    then show ?thesis using half by simp
  qed
  have pup: "?p \<le> 2 ^ 86"
  proof -
    have "?N * sc \<le> 2 ^ 32 * 2 ^ 54" using N sc(2) scpos by (intro mult_mono) simp_all
    then show ?thesis by simp
  qed
  have pabs: "\<bar>?p\<bar> \<le> 2 ^ 86" using pup half by simp
  have "\<bar>?p\<bar> \<le> 2 ^ 1000"
  proof -
    note pabs
    also have "(2::rat) ^ 86 \<le> 2 ^ 1000" by (intro power_increasing) simp_all
    finally show ?thesis .
  qed
  then show "js_mul (Num ?N) (Num sc) = Num (double ?p)" by (rule js_mul_Num)
  have "?W * (1 - 2 powi (- 52)) \<le> ?W * ((1 - ?u) * (1 - ?u))"
    using two_roundings W by (intro mult_left_mono) simp_all
  also have "\<dots> = (?W * (1 - ?u)) * (1 - ?u)" by simp
  also have "\<dots> \<le> ?p * (1 - ?u)" using plo u(1) by (rule mult_right_mono)
  also have "\<dots> \<le> double ?p" using norm by (rule double_lower)
  finally show "?W * (1 - 2 powi (- 52)) \<le> double ?p" .
  have "\<bar>double ?p\<bar> \<le> 2 * 2 ^ 86" using pabs by (rule double_bound) simp
  then show "\<bar>double ?p\<bar> \<le> 2 ^ 88" by simp
qed

text \<open>
  The origin along one axis: finite, and not to the right of the slot origin when the
  drawn size reaches the slot size.
\<close>

lemma drawn_origin:
  fixes x w :: int and D :: rat
  assumes x: "\<bar>x\<bar> < 2 ^ 53" and w: "0 < w" "w < 2 ^ 53" and D: "\<bar>D\<bar> \<le> 2 ^ 88"
  shows "js_add (Num (of_int x)) (js_div (js_sub (Num (of_int w)) (Num D)) (Num 2)) =
           Num (double (of_int x + double (double (of_int w - D) / 2)))"
    and "of_int w \<le> D \<Longrightarrow> double (of_int x + double (double (of_int w - D) / 2)) \<le> of_int x"
proof -
  let ?X = "rat_of_int x" and ?W = "rat_of_int w"
  have big: "(2::rat) ^ 91 \<le> 2 ^ 1000" "(2::rat) ^ 89 \<le> 2 ^ 1000"
    by (intro power_increasing; simp)+
  have X: "\<bar>?X\<bar> \<le> 2 ^ 53"
  proof -
    have "\<bar>x\<bar> \<le> 2 ^ 53" using x by simp
    then have "rat_of_int \<bar>x\<bar> \<le> rat_of_int (2 ^ 53)" by (simp only: of_int_le_iff)
    then show ?thesis by simp
  qed
  have W: "\<bar>?W\<bar> \<le> 2 ^ 53"
  proof -
    have "\<bar>w\<bar> \<le> 2 ^ 53" using w by simp
    then have "rat_of_int \<bar>w\<bar> \<le> rat_of_int (2 ^ 53)" by (simp only: of_int_le_iff)
    then show ?thesis by simp
  qed
  let ?t1 = "double (?W - D)"
  let ?t2 = "double (?t1 / 2)"
  have a1: "\<bar>?W - D\<bar> \<le> 2 ^ 89" using W D by (simp add: abs_le_iff)
  have t1: "\<bar>?t1\<bar> \<le> 2 * 2 ^ 89" using a1 by (rule double_bound) simp
  have a2: "\<bar>?t1 / 2\<bar> \<le> 2 ^ 89" using t1 by simp
  have t2: "\<bar>?t2\<bar> \<le> 2 * 2 ^ 89" using a2 by (rule double_bound) simp
  have a3: "\<bar>?X + ?t2\<bar> \<le> 2 ^ 91" using X t2 by (simp add: abs_le_iff)
  have "\<bar>?W - D\<bar> \<le> 2 ^ 1000" using a1 big(2) by (rule order_trans)
  then have s1: "js_sub (Num ?W) (Num D) = Num ?t1" by (rule js_sub_Num)
  have "\<bar>?t1 / 2\<bar> \<le> 2 ^ 1000" using a2 big(2) by (rule order_trans)
  then have s2: "js_div (Num ?t1) (Num 2) = Num ?t2" by (intro js_div_Num) simp_all
  have "\<bar>?X + ?t2\<bar> \<le> 2 ^ 1000" using a3 big(1) by (rule order_trans)
  then have s3: "js_add (Num ?X) (Num ?t2) = Num (double (?X + ?t2))" by (rule js_add_Num)
  show "js_add (Num ?X) (js_div (js_sub (Num ?W) (Num D)) (Num 2)) = Num (double (?X + ?t2))"
    by (simp only: s1 s2 s3)
  assume "?W \<le> D"
  then have "?W - D \<le> 0" by simp
  then have "?t1 \<le> 0" by (rule double_nonpos)
  then have "?t1 / 2 \<le> 0" by simp
  then have "?t2 \<le> 0" by (rule double_nonpos)
  then have "?X + ?t2 \<le> rat_of_int x" by simp
  then show "double (?X + ?t2) \<le> ?X" using x by (rule double_le_int)
qed

text \<open>
  The rounding error over the whole finite range: relative \<open>2 powi (- 53)\<close>, or half the
  smallest subnormal step.
\<close>

lemma double_error:
  "\<bar>double r - r\<bar> \<le> \<bar>r\<bar> * 2 powi (- 53) + 2 powi (- 1075)"
proof (cases "2 powi (- 1022) \<le> \<bar>r\<bar>")
  case True
  have "0 \<le> (2::rat) powi (- 1075)" by simp
  with double_error_rel[OF True] show ?thesis by linarith
next
  case False
  show ?thesis
  proof (cases "r = 0")
    case True
    then show ?thesis by (simp add: double_def)
  next
    case r: False
    then have "0 < \<bar>r\<bar>" by simp
    from ilog2_bounds(1)[OF this] False have "(2::rat) powi ilog2 \<bar>r\<bar> < 2 powi (- 1022)" by simp
    then have "ilog2 \<bar>r\<bar> < - 1022" by (simp only: pow2_less_iff)
    then have "max (ilog2 \<bar>r\<bar>) (- 1022) - 53 = - 1075" by simp
    with double_error_abs[OF r] have "\<bar>double r - r\<bar> \<le> 2 powi (- 1075)" by simp
    moreover have "0 \<le> \<bar>r\<bar> * 2 powi (- 53)" by simp
    ultimately show ?thesis by linarith
  qed
qed

text \<open>
  Both edges of the drawn image along one axis lie within \<open>(\<bar>x\<bar> + w) * 2 powi (- 52)\<close>
  of covering the slot.
\<close>

lemma drawn_edges:
  fixes x w :: int and D :: rat
  assumes x: "\<bar>x\<bar> < 2 ^ 53" and w: "0 < w" "w < 2 ^ 53"
    and D: "of_int w * (1 - 2 powi (- 52)) \<le> D"
  shows "double (of_int x + double (double (of_int w - D) / 2))
           \<le> of_int x + of_int (\<bar>x\<bar> + w) * 2 powi (- 52)"
    and "of_int x + of_int w - of_int (\<bar>x\<bar> + w) * 2 powi (- 52)
           \<le> double (of_int x + double (double (of_int w - D) / 2)) + D"
proof -
  define X W :: rat where "X = of_int x" and "W = of_int w"
  define n :: rat where "n = 2 powi (- 1075)"
  define t1 where "t1 = double (W - D)"
  define t2 where "t2 = double (t1 / 2)"
  define dx where "dx = double (X + t2)"
  have u53: "(2::rat) powi (- 53) = 1 / 9007199254740992" by (simp add: power_int_minus_divide)
  have u52: "(2::rat) powi (- 52) = 2 / 9007199254740992" by (simp add: power_int_minus_divide)
  have n: "0 \<le> n" "n \<le> 1 / 144115188075855872"
  proof -
    show "0 \<le> n" by (simp add: n_def)
    have "(- 1075 :: int) \<le> - 57" by simp
    then have "(2::rat) powi (- 1075) \<le> 2 powi (- 57)" by (simp only: pow2_le_iff)
    then show "n \<le> 1 / 144115188075855872" by (simp add: n_def power_int_minus_divide)
  qed
  have W1: "1 \<le> W"
  proof -
    have "1 \<le> w" using w by simp
    then have "rat_of_int 1 \<le> rat_of_int w" by (simp only: of_int_le_iff)
    then show ?thesis by (simp add: W_def)
  qed
  have ax: "rat_of_int (\<bar>x\<bar> + w) = \<bar>X\<bar> + W" by (simp add: X_def W_def)
  have e1: "\<bar>t1 - (W - D)\<bar> \<le> \<bar>W - D\<bar> / 9007199254740992 + n"
    using double_error[of "W - D"] by (simp add: t1_def n_def u53)
  have e2: "\<bar>t2 - t1 / 2\<bar> \<le> \<bar>t1\<bar> / 18014398509481984 + n"
    using double_error[of "t1 / 2"] by (simp add: t2_def n_def u53)
  have e3: "\<bar>dx - (X + t2)\<bar> \<le> \<bar>X + t2\<bar> / 9007199254740992 + n"
    using double_error[of "X + t2"] by (simp add: dx_def n_def u53)
  have D': "W - W * 2 / 9007199254740992 \<le> D"
    using D by (simp add: W_def u52 algebra_simps)
  define A where "A = \<bar>W - D\<bar>"
  have A: "0 \<le> A" "W - D \<le> A" "D - W \<le> A" by (simp_all add: A_def)
  have e1': "\<bar>t1 - (W - D)\<bar> \<le> A / 9007199254740992 + n" using e1 by (simp add: A_def)
  have b1: "\<bar>t1\<bar> \<le> 2 * A + n" using e1' A by (simp add: abs_le_iff; linarith)
  have b2: "\<bar>t2 - t1 / 2\<bar> \<le> A / 9007199254740992 + 2 * n" using e2 b1 n A(1) by linarith
  have b3: "\<bar>t2\<bar> \<le> 2 * A + 3 * n" using b2 b1 A(1) n by (simp add: abs_le_iff; linarith)
  have b4: "\<bar>dx - (X + t2)\<bar> \<le> \<bar>X\<bar> / 9007199254740992 + 2 * A / 9007199254740992 + 4 * n"
  proof -
    define a b c d where "a = \<bar>X\<bar>" and "b = \<bar>t2\<bar>" and "c = \<bar>X + t2\<bar>" and "d = \<bar>dx - (X + t2)\<bar>"
    have "c \<le> a + b" unfolding a_def b_def c_def by (rule abs_triangle_ineq)
    moreover have "d \<le> c / 9007199254740992 + n" using e3 by (simp only: c_def d_def)
    moreover have "b \<le> 2 * A + 3 * n" using b3 by (simp only: b_def)
    ultimately have "d \<le> a / 9007199254740992 + 2 * A / 9007199254740992 + 4 * n"
      using n A(1) by linarith
    then show ?thesis by (simp only: a_def d_def)
  qed
  have E: "\<bar>dx - (X + (W - D) / 2)\<bar> \<le> \<bar>X\<bar> / 9007199254740992 + 4 * A / 9007199254740992 + 7 * n"
  proof -
    define p q r where "p = dx - (X + t2)" and "q = t2 - t1 / 2" and "r = t1 - (W - D)"
    have "dx - (X + (W - D) / 2) = p + q + r / 2" by (simp add: p_def q_def r_def field_simps)
    moreover have "\<bar>p + q + r / 2\<bar> \<le> \<bar>p\<bar> + \<bar>q\<bar> + \<bar>r\<bar> / 2" by linarith
    ultimately have "\<bar>dx - (X + (W - D) / 2)\<bar> \<le> \<bar>p\<bar> + \<bar>q\<bar> + \<bar>r\<bar> / 2" by (simp only:)
    moreover define a where "a = \<bar>X\<bar>"
    moreover define e where "e = \<bar>dx - (X + (W - D) / 2)\<bar>"
    moreover define p' q' r' where "p' = \<bar>p\<bar>" and "q' = \<bar>q\<bar>" and "r' = \<bar>r\<bar>"
    moreover have "p' \<le> a / 9007199254740992 + 2 * A / 9007199254740992 + 4 * n"
      using b4 by (simp only: p'_def p_def a_def)
    moreover have "q' \<le> A / 9007199254740992 + 2 * n" using b2 by (simp only: q'_def q_def)
    moreover have "r' \<le> A / 9007199254740992 + n" using e1' by (simp only: r'_def r_def)
    ultimately have "e \<le> a / 9007199254740992 + 4 * A / 9007199254740992 + 7 * n"
      using n A(1) by linarith
    then show ?thesis by (simp only: e_def a_def)
  qed
  define a where "a = \<bar>X\<bar>"
  have a: "0 \<le> a" by (simp add: a_def)
  have E1: "dx - (X + W / 2 - D / 2) \<le> a / 9007199254740992 + 4 * A / 9007199254740992 + 7 * n"
    and E2: "X + W / 2 - D / 2 - dx \<le> a / 9007199254740992 + 4 * A / 9007199254740992 + 7 * n"
    using E unfolding a_def by (simp_all add: abs_le_iff diff_divide_distrib)
  have D'': "W - W * 2 / 9007199254740992 \<le> D" using D' by simp
  have "dx \<le> X + (a * 2 / 9007199254740992 + W * 2 / 9007199254740992)
      \<and> X + W - (a * 2 / 9007199254740992 + W * 2 / 9007199254740992) \<le> dx + D"
  proof (cases "W \<le> D")
    case True
    then have "A = D - W" by (simp add: A_def)
    with E1 E2 n W1 a True show ?thesis by - (rule conjI; linarith)
  next
    case False
    then have "A = W - D" by (simp add: A_def)
    with E1 E2 n W1 D'' a False show ?thesis by - (rule conjI; linarith)
  qed
  then have F: "dx \<le> X + (a * 2 / 9007199254740992 + W * 2 / 9007199254740992)"
      "X + W - (a * 2 / 9007199254740992 + W * 2 / 9007199254740992) \<le> dx + D"
    by simp_all
  have m: "rat_of_int (\<bar>x\<bar> + w) * 2 powi (- 52) = a * 2 / 9007199254740992 + W * 2 / 9007199254740992"
    by (simp add: a_def X_def W_def u52 add_divide_distrib distrib_right)
  show "double (of_int x + double (double (of_int w - D) / 2))
           \<le> of_int x + of_int (\<bar>x\<bar> + w) * 2 powi (- 52)"
    using F(1) unfolding m by (simp only: dx_def t2_def t1_def X_def W_def)
  show "of_int x + of_int w - of_int (\<bar>x\<bar> + w) * 2 powi (- 52)
           \<le> double (of_int x + double (double (of_int w - D) / 2)) + D"
    using F(2) unfolding m by (simp only: dx_def t2_def t1_def X_def W_def)
qed

subsection \<open>Cover placement\<close>

text \<open>
  Claim C8, as the code has it. The numbers of the placement are binary64 values and
  each of its operations rounds. Take a shot image of positive width and height (below
  \<open>2 ^ 32\<close>) and a slot rectangle with integer coordinates \<open>x\<close>, \<open>y\<close> and positive integer
  width \<open>w\<close> and height \<open>h\<close> (of magnitude below \<open>2 ^ 53\<close>); the rectangles that
  \<open>composeFinalPNG\<close> passes are of this kind, each coordinate being a result of
  \<^verbatim>\<open>Math.round\<close>. Then the placement is finite; the scale is the larger of the rounded
  quotients \<open>w / imgWidth\<close> and \<open>h / imgHeight\<close>; the drawn size is the rounded product of
  the image size and the scale, at least \<open>w * (1 - 2 powi (- 52))\<close> by
  \<open>h * (1 - 2 powi (- 52))\<close>; the origin is \<open>x + (w - drawW) / 2\<close>, \<open>y + (h - drawH) / 2\<close>
  evaluated in binary64, and it is not right of \<open>x\<close> when \<open>drawW\<close> reaches \<open>w\<close>, not below
  \<open>y\<close> when \<open>drawH\<close> reaches \<open>h\<close>. In every case the left and the right edge of the drawn
  image are within \<open>(\<bar>x\<bar> + w) * 2 powi (- 52)\<close> of covering the slot, the upper and the
  lower edge within \<open>(\<bar>y\<bar> + h) * 2 powi (- 52)\<close>.
\<close>

theorem placement_covers_slot:
  fixes x y w h :: int
  assumes img: "0 < width img" "width img < 2 ^ 32" "0 < height img" "height img < 2 ^ 32"
    and pos: "0 < w" "0 < h"
    and rng: "\<bar>x\<bar> < 2 ^ 53" "\<bar>y\<bar> < 2 ^ 53" "w < 2 ^ 53" "h < 2 ^ 53"
    and s: "s = \<lparr>slot_x = Num (of_int x), slot_y = Num (of_int y),
                  slot_w = Num (of_int w), slot_h = Num (of_int h)\<rparr>"
  shows "\<exists>dx dy drawW drawH.
      placement s img = (Num dx, Num dy, Num drawW, Num drawH)
    \<and> coverScale s img =
        Num (max (double (of_int w / of_nat (width img))) (double (of_int h / of_nat (height img))))
    \<and> Num drawW = js_mul (Num (of_nat (width img))) (coverScale s img)
    \<and> Num drawH = js_mul (Num (of_nat (height img))) (coverScale s img)
    \<and> Num dx = js_add (slot_x s) (js_div (js_sub (slot_w s) (Num drawW)) (Num 2))
    \<and> Num dy = js_add (slot_y s) (js_div (js_sub (slot_h s) (Num drawH)) (Num 2))
    \<and> of_int w * (1 - 2 powi (- 52)) \<le> drawW
    \<and> of_int h * (1 - 2 powi (- 52)) \<le> drawH
    \<and> (of_int w \<le> drawW \<longrightarrow> dx \<le> of_int x)
    \<and> (of_int h \<le> drawH \<longrightarrow> dy \<le> of_int y)
    \<and> dx \<le> of_int x + of_int (\<bar>x\<bar> + w) * 2 powi (- 52)
    \<and> of_int x + of_int w - of_int (\<bar>x\<bar> + w) * 2 powi (- 52) \<le> dx + drawW
    \<and> dy \<le> of_int y + of_int (\<bar>y\<bar> + h) * 2 powi (- 52)
    \<and> of_int y + of_int h - of_int (\<bar>y\<bar> + h) * 2 powi (- 52) \<le> dy + drawH"
proof -
  let ?a = "double (rat_of_int w / rat_of_nat (width img))"
  let ?b = "double (rat_of_int h / rat_of_nat (height img))"
  let ?sc = "max ?a ?b"
  let ?dW = "double (rat_of_nat (width img) * ?sc)"
  let ?dH = "double (rat_of_nat (height img) * ?sc)"
  let ?dx = "double (rat_of_int x + double (double (rat_of_int w - ?dW) / 2))"
  let ?dy = "double (rat_of_int y + double (double (rat_of_int h - ?dH) / 2))"
  note qa = quotient_bounds[OF pos(1) rng(3) img(1,2)]
  note qb = quotient_bounds[OF pos(2) rng(4) img(3,4)]
  have sc: "?a \<le> ?sc" "?b \<le> ?sc" "?sc \<le> 2 ^ 54" using qa(3) qb(3) by simp_all
  have scale: "coverScale s img = Num ?sc"
    by (simp only: coverScale_def s SlotRect.select_convs qa(1) qb(1) Math_max.simps)
  note W = drawn_size[OF pos(1) rng(3) img(1,2) sc(1,3)]
  note H = drawn_size[OF pos(2) rng(4) img(3,4) sc(2,3)]
  note X = drawn_origin[OF rng(1) pos(1) rng(3) W(3)]
  note Y = drawn_origin[OF rng(2) pos(2) rng(4) H(3)]
  note XE = drawn_edges[OF rng(1) pos(1) rng(3) W(2)]
  note YE = drawn_edges[OF rng(2) pos(2) rng(4) H(2)]
  have p: "placement s img = (Num ?dx, Num ?dy, Num ?dW, Num ?dH)"
    by (simp only: placement_def Let_def s SlotRect.select_convs qa(1) qb(1) Math_max.simps
        W(1) H(1) X(1) Y(1))
  have "placement s img = (Num ?dx, Num ?dy, Num ?dW, Num ?dH)
    \<and> coverScale s img = Num ?sc
    \<and> Num ?dW = js_mul (Num (of_nat (width img))) (coverScale s img)
    \<and> Num ?dH = js_mul (Num (of_nat (height img))) (coverScale s img)
    \<and> Num ?dx = js_add (slot_x s) (js_div (js_sub (slot_w s) (Num ?dW)) (Num 2))
    \<and> Num ?dy = js_add (slot_y s) (js_div (js_sub (slot_h s) (Num ?dH)) (Num 2))
    \<and> of_int w * (1 - 2 powi (- 52)) \<le> ?dW
    \<and> of_int h * (1 - 2 powi (- 52)) \<le> ?dH
    \<and> (of_int w \<le> ?dW \<longrightarrow> ?dx \<le> of_int x)
    \<and> (of_int h \<le> ?dH \<longrightarrow> ?dy \<le> of_int y)
    \<and> ?dx \<le> of_int x + of_int (\<bar>x\<bar> + w) * 2 powi (- 52)
    \<and> of_int x + of_int w - of_int (\<bar>x\<bar> + w) * 2 powi (- 52) \<le> ?dx + ?dW
    \<and> ?dy \<le> of_int y + of_int (\<bar>y\<bar> + h) * 2 powi (- 52)
    \<and> of_int y + of_int h - of_int (\<bar>y\<bar> + h) * 2 powi (- 52) \<le> ?dy + ?dH"
  proof (intro conjI impI)
    show "?dx \<le> of_int x + of_int (\<bar>x\<bar> + w) * 2 powi (- 52)" by (rule XE(1))
    show "of_int x + of_int w - of_int (\<bar>x\<bar> + w) * 2 powi (- 52) \<le> ?dx + ?dW" by (rule XE(2))
    show "?dy \<le> of_int y + of_int (\<bar>y\<bar> + h) * 2 powi (- 52)" by (rule YE(1))
    show "of_int y + of_int h - of_int (\<bar>y\<bar> + h) * 2 powi (- 52) \<le> ?dy + ?dH" by (rule YE(2))
    show "placement s img = (Num ?dx, Num ?dy, Num ?dW, Num ?dH)" by (rule p)
    show "coverScale s img = Num ?sc" by (rule scale)
    show "Num ?dW = js_mul (Num (of_nat (width img))) (coverScale s img)"
      by (simp only: scale W(1))
    show "Num ?dH = js_mul (Num (of_nat (height img))) (coverScale s img)"
      by (simp only: scale H(1))
    show "Num ?dx = js_add (slot_x s) (js_div (js_sub (slot_w s) (Num ?dW)) (Num 2))"
      by (simp only: s SlotRect.select_convs X(1))
    show "Num ?dy = js_add (slot_y s) (js_div (js_sub (slot_h s) (Num ?dH)) (Num 2))"
      by (simp only: s SlotRect.select_convs Y(1))
    show "of_int w * (1 - 2 powi (- 52)) \<le> ?dW" by (rule W(2))
    show "of_int h * (1 - 2 powi (- 52)) \<le> ?dH" by (rule H(2))
    show "?dx \<le> of_int x" if "of_int w \<le> ?dW" using that by (rule X(2))
    show "?dy \<le> of_int y" if "of_int h \<le> ?dH" using that by (rule Y(2))
  qed
  then show ?thesis by blast
qed

text \<open>
  A 1280 by 720 shot in the first default slot, the rectangle 90, 360, 510, 510 of the
  canvas: the height decides the scale, and the drawn image is about 906.67 wide.
\<close>

theorem placement_covers_slot_witness:
  "placement \<lparr>slot_x = Num 90, slot_y = Num 360, slot_w = Num 510, slot_h = Num 510\<rparr>
      \<lparr>width = 1280, height = 720, bitmap = 5\<rparr> =
     (Num (- (952910077405867 / 8796093022208)), Num 360, Num (3987562170067627 / 4398046511104), Num 510)
   \<and> (510 :: rat) * (1 - 2 powi (- 52)) \<le> (3987562170067627 / 4398046511104)
   \<and> (510 :: rat) * (1 - 2 powi (- 52)) \<le> 510
   \<and> (- (952910077405867 / 8796093022208)) \<le> (90 :: rat) \<and> 360 \<le> (360 :: rat)"
proof -
  let ?s = "\<lparr>slot_x = Num 90, slot_y = Num 360, slot_w = Num 510, slot_h = Num 510\<rparr>"
  let ?img = "\<lparr>width = 1280, height = 720, bitmap = 5\<rparr>"
  have s: "?s = \<lparr>slot_x = Num (of_int 90), slot_y = Num (of_int 360),
                  slot_w = Num (of_int 510), slot_h = Num (of_int 510)\<rparr>" by simp
  have "\<exists>dx dy drawW drawH.
      placement ?s ?img = (Num dx, Num dy, Num drawW, Num drawH)
    \<and> of_int 510 * (1 - 2 powi (- 52)) \<le> drawW
    \<and> of_int 510 * (1 - 2 powi (- 52)) \<le> drawH
    \<and> (of_int 510 \<le> drawW \<longrightarrow> dx \<le> of_int 90)
    \<and> (of_int 510 \<le> drawH \<longrightarrow> dy \<le> of_int 360)"
    using placement_covers_slot[where img = ?img and x = 90 and y = 360 and w = 510 and h = 510
        and s = ?s, OF _ _ _ _ _ _ _ _ _ _ s]
    by simp blast
  then obtain dx dy drawW drawH where
    p: "placement ?s ?img = (Num dx, Num dy, Num drawW, Num drawH)"
    and b: "of_int 510 * (1 - 2 powi (- 52)) \<le> drawW" "of_int 510 * (1 - 2 powi (- 52)) \<le> drawH"
      "of_int 510 \<le> drawW \<longrightarrow> dx \<le> of_int 90" "of_int 510 \<le> drawH \<longrightarrow> dy \<le> of_int 360"
    by blast
  from p have e: "dx = (- (952910077405867 / 8796093022208))" "dy = 360" "drawW = (3987562170067627 / 4398046511104)" "drawH = 510"
    by (simp_all only: placement_default_0 prod.inject number.inject)
  show ?thesis
    using b placement_default_0[of 5] unfolding e by simp
qed

text \<open>
  Claim C8 as stated has \<open>drawH \<ge> h\<close> and the slot completely covered. The first slot of
  \<open>frame2\<close> is the rectangle 126, 587, 441, 438 of the canvas. For a 1280 by 720 shot the
  scale is the rounded quotient \<open>438 / 720\<close>, and the rounded product of 720 and this
  scale is 437.99999999999994 (the fraction below): less than 438, so that the drawn
  image, which starts at 587, ends above the lower edge of the slot.
\<close>

theorem placement_covers_slot_counterexample:
  "toPixels (slotsOf (getFrameConfig frame2) ! 0) =
     \<lparr>slot_x = Num 126, slot_y = Num 587, slot_w = Num 441, slot_h = Num 438\<rparr>
   \<and> placement \<lparr>slot_x = Num 126, slot_y = Num 587, slot_w = Num 441, slot_h = Num 438\<rparr>
        \<lparr>width = 1280, height = 720, bitmap = 5\<rparr> =
       (Num (- (753531968902485 / 17592186044416)), Num 587, Num (6849224433292629 / 8796093022208), Num (7705377487454207 / 17592186044416))
   \<and> (7705377487454207 / 17592186044416) < (438 :: rat)
   \<and> 587 + (7705377487454207 / 17592186044416) < (587 + 438 :: rat)"
  using roundedSlot_frame2_0 placement_frame2_0[of 5] by (simp add: toPixels_roundedSlot)

subsection \<open>The four configurations\<close>

lemma first_slot_y:
  "slot_y (DEFAULT_SLOTS ! 0) = round64 0.2"
  "slot_y (slotsOf (getFrameConfig frame2) ! 0) = round64 0.3261"
  "slot_y (slotsOf (getFrameConfig frame4) ! 0) = round64 0.3242"
  by (simp_all add: DEFAULT_SLOTS_def slotsOf_def getFrameConfig_def FRAMES_def)

lemma tables_distinct:
  "distinct [DEFAULT_SLOTS, slotsOf (getFrameConfig frame2), slotsOf (getFrameConfig frame4)]"
proof -
  have a: "DEFAULT_SLOTS \<noteq> slotsOf (getFrameConfig frame2)"
  proof
    assume "DEFAULT_SLOTS = slotsOf (getFrameConfig frame2)"
    then have "slot_y (DEFAULT_SLOTS ! 0) = slot_y (slotsOf (getFrameConfig frame2) ! 0)"
      by (simp only:)
    then have "round64 0.2 = round64 0.3261" by (simp only: first_slot_y)
    then show False by (simp only: eval_3 eval_11) simp
  qed
  have b: "DEFAULT_SLOTS \<noteq> slotsOf (getFrameConfig frame4)"
  proof
    assume "DEFAULT_SLOTS = slotsOf (getFrameConfig frame4)"
    then have "slot_y (DEFAULT_SLOTS ! 0) = slot_y (slotsOf (getFrameConfig frame4) ! 0)"
      by (simp only:)
    then have "round64 0.2 = round64 0.3242" by (simp only: first_slot_y)
    then show False by (simp only: eval_3 eval_17) simp
  qed
  have c: "slotsOf (getFrameConfig frame2) \<noteq> slotsOf (getFrameConfig frame4)"
  proof
    assume "slotsOf (getFrameConfig frame2) = slotsOf (getFrameConfig frame4)"
    then have "slot_y (slotsOf (getFrameConfig frame2) ! 0) = slot_y (slotsOf (getFrameConfig frame4) ! 0)"
      by (simp only:)
    then have "round64 0.3261 = round64 0.3242" by (simp only: first_slot_y)
    then show False by (simp only: eval_11 eval_17) simp
  qed
  from a b c show ?thesis by simp
qed

text \<open>
  Claim C4, as the code has it. The result page offers exactly four fixed configurations,
  \<open>frame1\<close> to \<open>frame4\<close>. Two of them, \<open>frame1\<close> and \<open>frame3\<close>, carry no slot table and
  are drawn with the shared default table; the other two carry a table of their own.
  Every configuration is drawn with a table of four slots, and the three tables in use
  (the default one and those of \<open>frame2\<close> and \<open>frame4\<close>) are pairwise distinct constants.
  None of the four is a plain overlay: whenever there are four shots, the 2D context
  exists and the shots and the frame image load, \<open>composeFinalPNG\<close> with any of the four
  configurations draws the four shots clipped into the four slots of its table, and the
  frame image over them.
\<close>

theorem four_configurations:
  "map fid FRAMES = [frame1, frame2, frame3, frame4]
   \<and> map (\<lambda>f. slots f = None) FRAMES = [True, False, True, False]
   \<and> map (\<lambda>f. length (slotsOf f)) FRAMES = [4, 4, 4, 4]
   \<and> slotsOf (getFrameConfig frame1) = DEFAULT_SLOTS
   \<and> slotsOf (getFrameConfig frame3) = DEFAULT_SLOTS
   \<and> distinct [DEFAULT_SLOTS, slotsOf (getFrameConfig frame2), slotsOf (getFrameConfig frame4)]
   \<and> (length blobs = 4 \<and> getContext P \<and> map (blobToImage P) blobs = map Inr imgs
        \<and> loadImage P (src (getFrameConfig f)) = Inr frameImg \<longrightarrow>
      fst (composeFinalPNG P blobs (getFrameConfig f)) =
        Some (composite (slotsOf (getFrameConfig f)) imgs frameImg))"
proof (intro conjI impI)
  show "map fid FRAMES = [frame1, frame2, frame3, frame4]" by (simp add: FRAMES_def)
  show "map (\<lambda>f. slots f = None) FRAMES = [True, False, True, False]" by (simp add: FRAMES_def)
  show "map (\<lambda>f. length (slotsOf f)) FRAMES = [4, 4, 4, 4]"
    by (simp add: FRAMES_def slotsOf_def DEFAULT_SLOTS_def)
  show "slotsOf (getFrameConfig frame1) = DEFAULT_SLOTS" by (rule slotsOf_frames(1))
  show "slotsOf (getFrameConfig frame3) = DEFAULT_SLOTS" by (rule slotsOf_frames(2))
  show "distinct [DEFAULT_SLOTS, slotsOf (getFrameConfig frame2), slotsOf (getFrameConfig frame4)]"
    by (rule tables_distinct)
  assume a: "length blobs = 4 \<and> getContext P \<and> map (blobToImage P) blobs = map Inr imgs
        \<and> loadImage P (src (getFrameConfig f)) = Inr frameImg"
  have "4 \<le> length (slotsOf (getFrameConfig f))" by (simp add: slotsOf_frames(3))
  with a show "fst (composeFinalPNG P blobs (getFrameConfig f)) =
        Some (composite (slotsOf (getFrameConfig f)) imgs frameImg)"
    by (intro composeFinalPNG_drawn(2)) simp_all
qed

text \<open>The four shots of a session composed with \<open>frame3\<close>, which has no table of its own.\<close>

theorem four_configurations_witness:
  "length fourShots = 4 \<and> getContext workingBrowser
   \<and> fst (composeFinalPNG workingBrowser fourShots (getFrameConfig frame3)) =
        Some (composite DEFAULT_SLOTS
          [\<lparr>width = 1280, height = 720, bitmap = 5\<rparr>, \<lparr>width = 1280, height = 720, bitmap = 6\<rparr>,
           \<lparr>width = 1280, height = 720, bitmap = 7\<rparr>, \<lparr>width = 1280, height = 720, bitmap = 8\<rparr>]
          \<lparr>width = 1280, height = 720, bitmap = 18\<rparr>)"
proof -
  have "src (getFrameConfig frame3) = ''/frames/frame3.png''"
    by (simp add: getFrameConfig_def FRAMES_def)
  then show ?thesis
    using four_configurations[where blobs = fourShots and P = workingBrowser and f = frame3
      and imgs = "[\<lparr>width = 1280, height = 720, bitmap = 5\<rparr>, \<lparr>width = 1280, height = 720, bitmap = 6\<rparr>,
           \<lparr>width = 1280, height = 720, bitmap = 7\<rparr>, \<lparr>width = 1280, height = 720, bitmap = 8\<rparr>]"
      and frameImg = "\<lparr>width = 1280, height = 720, bitmap = 18\<rparr>"]
    by (simp add: fourShots_def workingBrowser_simps)
qed

lemma clippedShot_default_0:
  "clippedShot \<lparr>slot_x = Num 90, slot_y = Num 360, slot_w = Num 510, slot_h = Num 510\<rparr>
     \<lparr>width = 1280, height = 720, bitmap = b\<rparr> =
   [Save, BeginPath, Rect (Num 90) (Num 360) (Num 510) (Num 510), Clip,
    DrawImage (Image \<lparr>width = 1280, height = 720, bitmap = b\<rparr>)
      (Num (- (952910077405867 / 8796093022208))) (Num 360) (Num (3987562170067627 / 4398046511104)) (Num 510),
    Restore, StrokeStyle ''rgba(0,0,0,0.08)'', LineWidth 6,
    StrokeRect (Num 90) (Num 360) (Num 510) (Num 510)]"
  by (simp only: drawShot_clippedShot[symmetric] drawShot_def placement_default_0 prod.case
      SlotRect.select_convs)

text \<open>
  Claim C4 as stated has exactly one configuration that is a plain overlay without slot
  drawing, and three that are coordinate tables. In the code two configurations lack a
  table, and such a configuration is no plain overlay: composing with \<open>frame1\<close> draws the
  first shot clipped into the first default slot right after the white fill.
\<close>

theorem four_configurations_counterexample:
  "slots (getFrameConfig frame1) = None \<and> slots (getFrameConfig frame3) = None
   \<and> getFrameConfig frame1 \<noteq> getFrameConfig frame3
   \<and> take 7 (calls (the (fst (composeFinalPNG workingBrowser fourShots (getFrameConfig frame1))))) =
       [FillStyle ''#ffffff'', FillRect 0 0 1200 1800, Save, BeginPath,
        Rect (Num 90) (Num 360) (Num 510) (Num 510), Clip,
        DrawImage (Image \<lparr>width = 1280, height = 720, bitmap = 5\<rparr>)
          (Num (- (952910077405867 / 8796093022208))) (Num 360) (Num (3987562170067627 / 4398046511104)) (Num 510)]"
proof -
  have 1: "slots (getFrameConfig frame1) = None \<and> slots (getFrameConfig frame3) = None
      \<and> getFrameConfig frame1 \<noteq> getFrameConfig frame3"
    by (simp add: getFrameConfig_def FRAMES_def)
  have 2: "fst (composeFinalPNG workingBrowser fourShots (getFrameConfig frame1)) =
      Some (composite (slotsOf (getFrameConfig frame1))
          [\<lparr>width = 1280, height = 720, bitmap = 5\<rparr>, \<lparr>width = 1280, height = 720, bitmap = 6\<rparr>,
           \<lparr>width = 1280, height = 720, bitmap = 7\<rparr>, \<lparr>width = 1280, height = 720, bitmap = 8\<rparr>]
          \<lparr>width = 1280, height = 720, bitmap = 18\<rparr>)"
    apply (rule composeFinalPNG_drawn(2))
        apply (simp_all add: fourShots_def workingBrowser_simps slotsOf_frames(3))
    apply (simp add: getFrameConfig_def FRAMES_def)
    done
  have 3: "take 7 (calls (composite (slotsOf (getFrameConfig frame1))
          [\<lparr>width = 1280, height = 720, bitmap = 5\<rparr>, \<lparr>width = 1280, height = 720, bitmap = 6\<rparr>,
           \<lparr>width = 1280, height = 720, bitmap = 7\<rparr>, \<lparr>width = 1280, height = 720, bitmap = 8\<rparr>]
          \<lparr>width = 1280, height = 720, bitmap = 18\<rparr>)) =
       [FillStyle ''#ffffff'', FillRect 0 0 1200 1800, Save, BeginPath,
        Rect (Num 90) (Num 360) (Num 510) (Num 510), Clip,
        DrawImage (Image \<lparr>width = 1280, height = 720, bitmap = 5\<rparr>)
          (Num (- (952910077405867 / 8796093022208))) (Num 360) (Num (3987562170067627 / 4398046511104)) (Num 510)]"
    apply (simp only: composite_def canvas.select_convs roundedSlot_default_0 nth_Cons_0
        clippedShot_default_0)
    apply simp
    done
  show ?thesis using 1 by (simp only: 2 option.sel 3) simp
qed

subsection \<open>Capture\<close>

text \<open>
  Claim C6, as the code has it. For every video with nonzero \<open>videoWidth\<close> \<open>vw\<close> and
  \<open>videoHeight\<close> \<open>vh\<close>, in a browser that provides the 2D context and encodes the canvas,
  \<open>captureFromVideo\<close> returns the PNG blob of a \<open>vw\<close> by \<open>vh\<close> canvas on which the frame
  is drawn under \<open>translate(vw, 0)\<close> followed by \<open>scale(-1, 1)\<close>. That transform takes the
  point \<open>(x, y)\<close> to \<open>(vw - x, y)\<close>, so pixel column \<open>i\<close> of the video (counted from 0)
  appears at pixel column \<open>vw - 1 - i\<close> of the captured image, which lies on the canvas.
\<close>

theorem captureFromVideo_mirror:
  assumes "videoWidth v \<noteq> 0" "videoHeight v \<noteq> 0" "getContext P"
    and "toBlob P (mirrorCanvas v) ''image/png'' = Some png"
  shows "captureFromVideo P v = (Some (mirrorCanvas v), Inr png)
     \<and> canvas_width (mirrorCanvas v) = videoWidth v
     \<and> canvas_height (mirrorCanvas v) = videoHeight v
     \<and> drawImageCalls (calls (mirrorCanvas v)) identityMatrix [] =
         [(Video v, (- 1, 0, 0, 1, of_nat (videoWidth v), 0))]
     \<and> transformPoint (- 1, 0, 0, 1, of_nat (videoWidth v), 0) (x, y) = (of_nat (videoWidth v) - x, y)
     \<and> (i < videoWidth v \<longrightarrow>
          pixelColumn (- 1, 0, 0, 1, of_nat (videoWidth v), 0) i = int (videoWidth v) - 1 - int i
          \<and> 0 \<le> pixelColumn (- 1, 0, 0, 1, of_nat (videoWidth v), 0) i
          \<and> pixelColumn (- 1, 0, 0, 1, of_nat (videoWidth v), 0) i < int (canvas_width (mirrorCanvas v)))"
proof -
  have c: "captureFromVideo P v = (Some (mirrorCanvas v), Inr png)"
    using assms by (simp add: captureFromVideo_def Let_def mirrorCanvas_def)
  have d: "drawImageCalls (calls (mirrorCanvas v)) identityMatrix [] =
         [(Video v, (- 1, 0, 0, 1, of_nat (videoWidth v), 0))]"
    by (simp add: mirrorCanvas_def identityMatrix_def)
  have "min (- 1 * rat_of_nat i + 0 * 0 + rat_of_nat (videoWidth v))
            (- 1 * (rat_of_nat i + 1) + 0 * 0 + rat_of_nat (videoWidth v))
      = rat_of_int (int (videoWidth v) - 1 - int i)"
    by simp
  then have p: "pixelColumn (- 1, 0, 0, 1, of_nat (videoWidth v), 0) i = int (videoWidth v) - 1 - int i"
    unfolding pixelColumn_def transformPoint.simps fst_conv by (simp only: floor_of_int)
  show ?thesis using c d p by (simp add: mirrorCanvas_def)
qed

text \<open>A 1280 by 720 webcam frame: column 3 lands on column 1276.\<close>

theorem captureFromVideo_mirror_witness:
  "videoWidth (webcam 0) \<noteq> 0 \<and> videoHeight (webcam 0) \<noteq> 0 \<and> getContext workingBrowser
   \<and> captureFromVideo workingBrowser (webcam 0) = (Some (mirrorCanvas (webcam 0)), Inr (Blob 100))
   \<and> pixelColumn (- 1, 0, 0, 1, 1280, 0) 3 = 1276"
  using captureFromVideo_mirror[of "webcam 0" workingBrowser "Blob 100" 3]
  by (simp add: webcam_def workingBrowser_simps mirrorCanvas_def)

text \<open>
  Claim C6 as stated puts pixel column \<open>x\<close> at column \<open>vw - x\<close>. For a 1280 wide video
  column 0 lands on column 1279; column 1280 is not on the 1280 wide canvas.
\<close>

theorem captureFromVideo_mirror_counterexample:
  "fst (captureFromVideo workingBrowser (webcam 0)) = Some (mirrorCanvas (webcam 0))
   \<and> canvas_width (mirrorCanvas (webcam 0)) = 1280
   \<and> drawImageCalls (calls (mirrorCanvas (webcam 0))) identityMatrix [] =
         [(Video (webcam 0), (- 1, 0, 0, 1, 1280, 0))]
   \<and> pixelColumn (- 1, 0, 0, 1, 1280, 0) 0 = 1279
   \<and> pixelColumn (- 1, 0, 0, 1, 1280, 0) 0 \<noteq> 1280 - 0"
  by (simp add: captureFromVideo_def Let_def webcam_def workingBrowser_simps mirrorCanvas_def
      identityMatrix_def pixelColumn_def)


subsection \<open>The shooting sequence\<close>

declare shootLoop.simps [simp del]

lemma shootLoop_done: "\<not> i < 4 \<Longrightarrow> shootLoop E video i captured s tr = (Inr captured, s, tr)"
  by (simp add: shootLoop.simps)

lemma shootLoop_fail:
  "i < 4 \<Longrightarrow> snd (captureFromVideo (browser E) (video i)) = Inl e \<Longrightarrow>
   shootLoop E video i captured s tr =
     (Inl e, s\<lparr>countdown := 0\<rparr>, tr @ perShotCountdown 3 @ [SetCountdown 0])"
  by (subst shootLoop.simps) (simp add: Let_def)

lemma shootLoop_step:
  "i < 4 \<Longrightarrow> snd (captureFromVideo (browser E) (video i)) = Inr b \<Longrightarrow>
   shootLoop E video i captured s tr =
     shootLoop E video (Suc i) (captured @ [b])
       (s\<lparr>countdown := 0, cap_shots := captured @ [b], shotIndex := Suc (length captured)\<rparr>)
       (tr @ perShotCountdown 3 @ [SetCountdown 0] @ [Captured i b] @ (if i < 3 then [Sleep 400] else []))"
  by (subst shootLoop.simps) (simp add: Let_def)

lemma perShotCountdown_3:
  "perShotCountdown 3 = [SetCountdown 3, Sleep 1000, SetCountdown 2, Sleep 1000, SetCountdown 1, Sleep 1000]"
  by (simp add: numeral_3_eq_3 numeral_2_eq_2)

text \<open>The loop leaves with an error exactly when one of the captures still ahead fails.\<close>

lemma shootLoop_Inl_iff:
  "isl (fst (shootLoop E video i captured s tr)) \<longleftrightarrow>
     (\<exists>k. i \<le> k \<and> k < 4 \<and> isl (snd (captureFromVideo (browser E) (video k))))"
proof (induction E video i captured s tr rule: shootLoop.induct)
  case (1 E video i captured s tr)
  show ?case
  proof (cases "i < 4")
    case False
    then show ?thesis by (simp add: shootLoop_done)
  next
    case True
    show ?thesis
    proof (cases "snd (captureFromVideo (browser E) (video i))")
      case (Inl e)
      then have "isl (fst (shootLoop E video i captured s tr))"
        using True by (simp add: shootLoop_fail)
      moreover have "\<exists>k. i \<le> k \<and> k < 4 \<and> isl (snd (captureFromVideo (browser E) (video k)))"
        using True Inl by (intro exI[of _ i]) simp
      ultimately show ?thesis by blast
    next
      case (Inr b)
      have ih: "isl (fst (shootLoop E video (Suc i) (captured @ [b])
                 (s\<lparr>countdown := 0, cap_shots := captured @ [b], shotIndex := length (captured @ [b])\<rparr>)
                 ((tr @ perShotCountdown 3 @ [SetCountdown 0]) @ [Captured i b] @ (if i < 3 then [Sleep 400] else []))))
            \<longleftrightarrow> (\<exists>k. Suc i \<le> k \<and> k < 4 \<and> isl (snd (captureFromVideo (browser E) (video k))))"
        using "1.IH"[OF True refl refl Inr refl refl refl] by simp
      have "(\<exists>k. i \<le> k \<and> k < 4 \<and> isl (snd (captureFromVideo (browser E) (video k))))
          \<longleftrightarrow> (\<exists>k. Suc i \<le> k \<and> k < 4 \<and> isl (snd (captureFromVideo (browser E) (video k))))"
        using Inr by (metis Suc_leI le_neq_implies_less sum.disc(2) Suc_leD)
      then show ?thesis using ih True Inr by (simp add: shootLoop_step)
    qed
  qed
qed

lemma shootLoop_four:
  assumes "snd (captureFromVideo (browser E) (video 0)) = Inr b0"
    and "snd (captureFromVideo (browser E) (video 1)) = Inr b1"
    and "snd (captureFromVideo (browser E) (video 2)) = Inr b2"
    and "snd (captureFromVideo (browser E) (video 3)) = Inr b3"
  shows "shootLoop E video 0 [] s [] =
     (Inr [b0, b1, b2, b3],
      s\<lparr>countdown := 0, cap_shots := [b0, b1, b2, b3], shotIndex := 4\<rparr>,
      [SetCountdown 3, Sleep 1000, SetCountdown 2, Sleep 1000, SetCountdown 1, Sleep 1000,
       SetCountdown 0, Captured 0 b0, Sleep 400,
       SetCountdown 3, Sleep 1000, SetCountdown 2, Sleep 1000, SetCountdown 1, Sleep 1000,
       SetCountdown 0, Captured 1 b1, Sleep 400,
       SetCountdown 3, Sleep 1000, SetCountdown 2, Sleep 1000, SetCountdown 1, Sleep 1000,
       SetCountdown 0, Captured 2 b2, Sleep 400,
       SetCountdown 3, Sleep 1000, SetCountdown 2, Sleep 1000, SetCountdown 1, Sleep 1000,
       SetCountdown 0, Captured 3 b3])"
proof -
  have s1: "Suc 0 = 1" "Suc 1 = 2" "Suc 2 = 3" "Suc 3 = 4" by simp_all
  show ?thesis
    apply (subst shootLoop_step[where i = 0 and video = video and E = E and b = b0, OF _ assms(1)], simp)
    apply (simp only: s1)
    apply (subst shootLoop_step[where i = 1 and video = video and E = E and b = b1, OF _ assms(2)], simp)
    apply (simp only: s1)
    apply (subst shootLoop_step[where i = 2 and video = video and E = E and b = b2, OF _ assms(3)], simp)
    apply (simp only: s1)
    apply (subst shootLoop_step[where i = 3 and video = video and E = E and b = b3, OF _ assms(4)], simp)
    apply (simp only: s1)
    apply (subst shootLoop_done, simp)
    apply (simp add: perShotCountdown_3)
    done
qed

lemma shootLoop_no_Stored:
  "\<forall>k v. Stored k v \<notin> set tr \<Longrightarrow>
   \<forall>k v. Stored k v \<notin> set (snd (snd (shootLoop E video i captured s tr)))"
proof (induction E video i captured s tr rule: shootLoop.induct)
  case (1 E video i captured s tr)
  show ?case
  proof (cases "i < 4")
    case False
    then show ?thesis using "1.prems" by (simp add: shootLoop_done)
  next
    case True
    show ?thesis
    proof (cases "snd (captureFromVideo (browser E) (video i))")
      case (Inl e)
      then show ?thesis using True "1.prems" by (simp add: shootLoop_fail perShotCountdown_3)
    next
      case (Inr b)
      have "\<forall>k v. Stored k v \<notin> set ((tr @ perShotCountdown 3 @ [SetCountdown 0]) @ [Captured i b] @ (if i < 3 then [Sleep 400] else []))"
        using "1.prems" by (simp add: perShotCountdown_3)
      from "1.IH"[OF True refl refl Inr refl refl refl this]
      show ?thesis using True Inr by (simp add: shootLoop_step)
    qed
  qed
qed

lemma shootLoop_Inr_four:
  assumes "fst (shootLoop E video 0 [] s []) = Inr captured"
  shows "length captured = 4"
proof -
  have "\<not> isl (fst (shootLoop E video 0 [] s []))" using assms by simp
  then have ok: "\<not> isl (snd (captureFromVideo (browser E) (video k)))" if "k < 4" for k
    using that by (auto simp: shootLoop_Inl_iff)
  obtain b0 where b0: "snd (captureFromVideo (browser E) (video 0)) = Inr b0"
    using ok[of 0] by (cases "snd (captureFromVideo (browser E) (video 0))") auto
  obtain b1 where b1: "snd (captureFromVideo (browser E) (video 1)) = Inr b1"
    using ok[of 1] by (cases "snd (captureFromVideo (browser E) (video 1))") auto
  obtain b2 where b2: "snd (captureFromVideo (browser E) (video 2)) = Inr b2"
    using ok[of 2] by (cases "snd (captureFromVideo (browser E) (video 2))") auto
  obtain b3 where b3: "snd (captureFromVideo (browser E) (video 3)) = Inr b3"
    using ok[of 3] by (cases "snd (captureFromVideo (browser E) (video 3))") auto
  from shootLoop_four[OF b0 b1 b2 b3, of s] assms show ?thesis by auto
qed

lemma capture_webcam:
  "snd (captureFromVideo workingBrowser (webcam k)) = Inr (Blob (100 + k))"
  by (simp add: captureFromVideo_def Let_def webcam_def workingBrowser_simps)

text \<open>
  Claim C3. A run of \<open>shoot4WithPerShotCountdown\<close> that completes has captured exactly
  4 frames in order, each after a full countdown 3, 2, 1 with a sleep of 1000 ms after
  every number (and a pause of 400 ms between shots), and has then written the record
  of these 4 images in capture order, the layout \<open>frame1\<close>, no composite and the current
  time under the storage key. If any of the four captures fails, the run does not
  complete, the store is left as it was and nothing is written. A run completes whenever
  the video element is there, the camera is on, no shooting is under way, the four
  captures succeed and the store accepts the write.
\<close>

theorem shoot4_successful_run:
  "(shoot4WithPerShotCountdown E s db = (Completed, s', db', tr) \<longrightarrow>
      (\<exists>video b0 b1 b2 b3.
          videoRef E = Some video
        \<and> snd (captureFromVideo (browser E) (video 0)) = Inr b0
        \<and> snd (captureFromVideo (browser E) (video 1)) = Inr b1
        \<and> snd (captureFromVideo (browser E) (video 2)) = Inr b2
        \<and> snd (captureFromVideo (browser E) (video 3)) = Inr b3
        \<and> tr =
           [SetCountdown 3, Sleep 1000, SetCountdown 2, Sleep 1000, SetCountdown 1, Sleep 1000,
            SetCountdown 0, Captured 0 b0, Sleep 400,
            SetCountdown 3, Sleep 1000, SetCountdown 2, Sleep 1000, SetCountdown 1, Sleep 1000,
            SetCountdown 0, Captured 1 b1, Sleep 400,
            SetCountdown 3, Sleep 1000, SetCountdown 2, Sleep 1000, SetCountdown 1, Sleep 1000,
            SetCountdown 0, Captured 2 b2, Sleep 400,
            SetCountdown 3, Sleep 1000, SetCountdown 2, Sleep 1000, SetCountdown 1, Sleep 1000,
            SetCountdown 0, Captured 3 b3,
            Stored DB_KEY \<lparr>shots = Some [b0, b1, b2, b3], frameId = Some frame1, final = None,
                            savedAt = Some (now E)\<rparr>]
        \<and> db' = db(DB_KEY \<mapsto> \<lparr>shots = Some [b0, b1, b2, b3], frameId = Some frame1, final = None,
                                 savedAt = Some (now E)\<rparr>)
        \<and> cap_shots s' = [b0, b1, b2, b3]))
   \<and> ((\<exists>video k. videoRef E = Some video \<and> k < 4
            \<and> isl (snd (captureFromVideo (browser E) (video k)))) \<longrightarrow>
        fst (shoot4WithPerShotCountdown E s db) \<noteq> Completed
        \<and> fst (snd (snd (shoot4WithPerShotCountdown E s db))) = db
        \<and> (\<forall>k v. Stored k v \<notin> set (snd (snd (snd (shoot4WithPerShotCountdown E s db))))))
   \<and> ((\<exists>video. videoRef E = Some video
            \<and> (\<forall>k<4. \<not> isl (snd (captureFromVideo (browser E) (video k)))))
        \<and> cameraOn s \<and> \<not> isShooting s \<and> idbFailure E = None \<longrightarrow>
        fst (shoot4WithPerShotCountdown E s db) = Completed)"
proof (intro conjI impI)
  assume run: "shoot4WithPerShotCountdown E s db = (Completed, s', db', tr)"
  from run obtain video where v: "videoRef E = Some video"
    by (cases "videoRef E") (auto simp: shoot4WithPerShotCountdown_def Let_def)
  from run v have on: "cameraOn s" "\<not> isShooting s"
    by (auto simp: shoot4WithPerShotCountdown_def Let_def split: if_splits)
  let ?s0 = "s\<lparr>cap_error := None, isShooting := True, cap_shots := [], shotIndex := 0\<rparr>"
  obtain r s1 tr0 where loop: "shootLoop E video 0 [] ?s0 [] = (r, s1, tr0)"
    by (cases "shootLoop E video 0 [] ?s0 []") auto
  from run v on loop obtain captured where r: "r = Inr captured"
    by (cases r) (auto simp: shoot4WithPerShotCountdown_def Let_def)
  have "\<not> isl (fst (shootLoop E video 0 [] ?s0 []))" using loop r by simp
  then have ok: "\<not> isl (snd (captureFromVideo (browser E) (video k)))" if "k < 4" for k
    using that by (auto simp: shootLoop_Inl_iff)
  obtain b0 where b0: "snd (captureFromVideo (browser E) (video 0)) = Inr b0"
    using ok[of 0] by (cases "snd (captureFromVideo (browser E) (video 0))") auto
  obtain b1 where b1: "snd (captureFromVideo (browser E) (video 1)) = Inr b1"
    using ok[of 1] by (cases "snd (captureFromVideo (browser E) (video 1))") auto
  obtain b2 where b2: "snd (captureFromVideo (browser E) (video 2)) = Inr b2"
    using ok[of 2] by (cases "snd (captureFromVideo (browser E) (video 2))") auto
  obtain b3 where b3: "snd (captureFromVideo (browser E) (video 3)) = Inr b3"
    using ok[of 3] by (cases "snd (captureFromVideo (browser E) (video 3))") auto
  note four = shootLoop_four[OF b0 b1 b2 b3, of ?s0]
  from run v on four have
    "tr =
           [SetCountdown 3, Sleep 1000, SetCountdown 2, Sleep 1000, SetCountdown 1, Sleep 1000,
            SetCountdown 0, Captured 0 b0, Sleep 400,
            SetCountdown 3, Sleep 1000, SetCountdown 2, Sleep 1000, SetCountdown 1, Sleep 1000,
            SetCountdown 0, Captured 1 b1, Sleep 400,
            SetCountdown 3, Sleep 1000, SetCountdown 2, Sleep 1000, SetCountdown 1, Sleep 1000,
            SetCountdown 0, Captured 2 b2, Sleep 400,
            SetCountdown 3, Sleep 1000, SetCountdown 2, Sleep 1000, SetCountdown 1, Sleep 1000,
            SetCountdown 0, Captured 3 b3,
            Stored DB_KEY \<lparr>shots = Some [b0, b1, b2, b3], frameId = Some frame1, final = None,
                            savedAt = Some (now E)\<rparr>]
        \<and> db' = db(DB_KEY \<mapsto> \<lparr>shots = Some [b0, b1, b2, b3], frameId = Some frame1, final = None,
                                 savedAt = Some (now E)\<rparr>)
        \<and> cap_shots s' = [b0, b1, b2, b3]"
    by (auto simp: shoot4WithPerShotCountdown_def Let_def idb_set_def split: option.splits)
  with v b0 b1 b2 b3 show "\<exists>video b0 b1 b2 b3.
          videoRef E = Some video
        \<and> snd (captureFromVideo (browser E) (video 0)) = Inr b0
        \<and> snd (captureFromVideo (browser E) (video 1)) = Inr b1
        \<and> snd (captureFromVideo (browser E) (video 2)) = Inr b2
        \<and> snd (captureFromVideo (browser E) (video 3)) = Inr b3
        \<and> tr =
           [SetCountdown 3, Sleep 1000, SetCountdown 2, Sleep 1000, SetCountdown 1, Sleep 1000,
            SetCountdown 0, Captured 0 b0, Sleep 400,
            SetCountdown 3, Sleep 1000, SetCountdown 2, Sleep 1000, SetCountdown 1, Sleep 1000,
            SetCountdown 0, Captured 1 b1, Sleep 400,
            SetCountdown 3, Sleep 1000, SetCountdown 2, Sleep 1000, SetCountdown 1, Sleep 1000,
            SetCountdown 0, Captured 2 b2, Sleep 400,
            SetCountdown 3, Sleep 1000, SetCountdown 2, Sleep 1000, SetCountdown 1, Sleep 1000,
            SetCountdown 0, Captured 3 b3,
            Stored DB_KEY \<lparr>shots = Some [b0, b1, b2, b3], frameId = Some frame1, final = None,
                            savedAt = Some (now E)\<rparr>]
        \<and> db' = db(DB_KEY \<mapsto> \<lparr>shots = Some [b0, b1, b2, b3], frameId = Some frame1, final = None,
                                 savedAt = Some (now E)\<rparr>)
        \<and> cap_shots s' = [b0, b1, b2, b3]"
    by blast
next
  assume "\<exists>video k. videoRef E = Some video \<and> k < 4
            \<and> isl (snd (captureFromVideo (browser E) (video k)))"
  then obtain video k where v: "videoRef E = Some video" and k: "k < 4"
    and bad: "isl (snd (captureFromVideo (browser E) (video k)))" by blast
  let ?s0 = "s\<lparr>cap_error := None, isShooting := True, cap_shots := [], shotIndex := 0\<rparr>"
  have "isl (fst (shootLoop E video 0 [] ?s0 []))"
    using k bad by (auto simp: shootLoop_Inl_iff)
  then obtain e s1 tr0 where loop: "shootLoop E video 0 [] ?s0 [] = (Inl e, s1, tr0)"
    by (cases "shootLoop E video 0 [] ?s0 []"; cases "fst (shootLoop E video 0 [] ?s0 [])") auto
  have ns: "\<forall>k v. Stored k v \<notin> set tr0"
    using shootLoop_no_Stored[of "[]" E video 0 "[]" ?s0] loop by simp
  show "fst (shoot4WithPerShotCountdown E s db) \<noteq> Completed"
    using v loop by (simp add: shoot4WithPerShotCountdown_def Let_def)
  show "fst (snd (snd (shoot4WithPerShotCountdown E s db))) = db"
    using v loop by (simp add: shoot4WithPerShotCountdown_def Let_def)
  show "\<forall>k v. Stored k v \<notin> set (snd (snd (snd (shoot4WithPerShotCountdown E s db))))"
    using v loop ns by (simp add: shoot4WithPerShotCountdown_def Let_def)
next
  assume a: "(\<exists>video. videoRef E = Some video
            \<and> (\<forall>k<4. \<not> isl (snd (captureFromVideo (browser E) (video k)))))
        \<and> cameraOn s \<and> \<not> isShooting s \<and> idbFailure E = None"
  then obtain video where v: "videoRef E = Some video"
    and ok: "\<forall>k<4. \<not> isl (snd (captureFromVideo (browser E) (video k)))" by blast
  let ?s0 = "s\<lparr>cap_error := None, isShooting := True, cap_shots := [], shotIndex := 0\<rparr>"
  have "\<not> isl (fst (shootLoop E video 0 [] ?s0 []))"
    using ok by (auto simp: shootLoop_Inl_iff)
  then obtain captured s1 tr0 where loop: "shootLoop E video 0 [] ?s0 [] = (Inr captured, s1, tr0)"
    by (cases "shootLoop E video 0 [] ?s0 []"; cases "fst (shootLoop E video 0 [] ?s0 [])") auto
  show "fst (shoot4WithPerShotCountdown E s db) = Completed"
    using a v loop by (simp add: shoot4WithPerShotCountdown_def Let_def idb_set_def)
qed

text \<open>
  A working session writes the four snapshots in order; a camera that stalls at the third
  capture leaves the empty store empty.
\<close>

theorem shoot4_successful_run_witness:
  "fst (shoot4WithPerShotCountdown workingSession readyCapturePage Map.empty) = Completed
   \<and> fst (snd (snd (shoot4WithPerShotCountdown workingSession readyCapturePage Map.empty))) DB_KEY =
       Some \<lparr>shots = Some [Blob 100, Blob 101, Blob 102, Blob 103], frameId = Some frame1,
             final = None, savedAt = Some 1700000000000\<rparr>
   \<and> fst (snd (snd (shoot4WithPerShotCountdown stallingSession readyCapturePage Map.empty))) = Map.empty"
proof -
  let ?r = "shoot4WithPerShotCountdown workingSession readyCapturePage Map.empty"
  note t = shoot4_successful_run[of workingSession readyCapturePage Map.empty
      "fst (snd ?r)" "fst (snd (snd ?r))" "snd (snd (snd ?r))"]
  have c: "fst ?r = Completed"
    using t by (simp add: workingSession_def readyCapturePage_def capture_webcam)
  then have "?r = (Completed, fst (snd ?r), fst (snd (snd ?r)), snd (snd (snd ?r)))"
    by (simp add: prod_eq_iff)
  with t have "fst (snd (snd ?r)) = Map.empty(DB_KEY \<mapsto>
      \<lparr>shots = Some [Blob 100, Blob 101, Blob 102, Blob 103], frameId = Some frame1,
             final = None, savedAt = Some 1700000000000\<rparr>)"
    by (auto simp: workingSession_def capture_webcam)
  then have d: "fst (snd (snd ?r)) DB_KEY = Some \<lparr>shots = Some [Blob 100, Blob 101, Blob 102, Blob 103], frameId = Some frame1,
             final = None, savedAt = Some 1700000000000\<rparr>"
    by simp
  have "isl (snd (captureFromVideo (browser stallingSession) (stallingWebcam 2)))"
    by (simp add: captureFromVideo_def stallingWebcam_def)
  then have "\<exists>video k. videoRef stallingSession = Some video \<and> k < 4
            \<and> isl (snd (captureFromVideo (browser stallingSession) (video k)))"
    by (intro exI[of _ stallingWebcam] exI[of _ 2]) (simp add: stallingSession_def)
  with shoot4_successful_run[of stallingSession readyCapturePage Map.empty]
  have "fst (snd (snd (shoot4WithPerShotCountdown stallingSession readyCapturePage Map.empty))) = Map.empty"
    by blast
  with c d show ?thesis by blast
qed

subsection \<open>The result page\<close>

lemma compose_working:
  "snd (composeFinalPNG workingBrowser fourShots (getFrameConfig f)) =
     Inr (Blob (126 + length (src (getFrameConfig f))))"
proof -
  have "snd (composeFinalPNG workingBrowser fourShots (getFrameConfig f)) =
     (case loadImage workingBrowser (src (getFrameConfig f)) of
        Inl e \<Rightarrow> Inl e
      | Inr frameImg \<Rightarrow>
          (case toBlob workingBrowser (composite (slotsOf (getFrameConfig f))
               [\<lparr>width = 1280, height = 720, bitmap = 5\<rparr>, \<lparr>width = 1280, height = 720, bitmap = 6\<rparr>,
                \<lparr>width = 1280, height = 720, bitmap = 7\<rparr>, \<lparr>width = 1280, height = 720, bitmap = 8\<rparr>]
               frameImg) ''image/png'' of
             None \<Rightarrow> Inl (Error ''toBlob failed'')
           | Some b \<Rightarrow> Inr b))"
    by (rule composeFinalPNG_drawn(1))
       (simp_all add: fourShots_def workingBrowser_simps slotsOf_frames)
  then show ?thesis
    by (simp add: workingBrowser_simps contentId_composite)
qed

text \<open>
  Claim C7. On mount the result page reads the record under the storage key. When the
  read yields no record, or a record without a shots list of length exactly 4, the page
  reports the error "No capturing data found..." and has no shots and no composite (as
  it has, with the error of the store, when the read itself fails). When the read yields
  a record with 4 shots, the page adopts these shots and the stored frame (\<open>frame1\<close>
  when absent) and composes anew from the stored shots: the composite is the result of
  \<open>composeFinalPNG\<close> on them, whatever cached final image the record holds.
\<close>

theorem loadOnMount_outcomes:
  "(idb_get E db DB_KEY = Inr (Some d) \<and> shots d = Some stored \<and> length stored = 4 \<longrightarrow>
      res_shots (loadOnMount E db initialResultPage) = stored
    \<and> res_frameId (loadOnMount E db initialResultPage) = (case frameId d of None \<Rightarrow> frame1 | Some f \<Rightarrow> f)
    \<and> (case snd (composeFinalPNG (browser E) stored
                  (getFrameConfig (case frameId d of None \<Rightarrow> frame1 | Some f \<Rightarrow> f))) of
          Inr png \<Rightarrow> finalBlob (loadOnMount E db initialResultPage) = Some png
                    \<and> res_error (loadOnMount E db initialResultPage) = None
        | Inl e \<Rightarrow> finalBlob (loadOnMount E db initialResultPage) = None
                    \<and> res_error (loadOnMount E db initialResultPage) = Some (messageOr e ''Load failed''))
    \<and> loadOnMount E (db(DB_KEY \<mapsto> d\<lparr>final := cached\<rparr>)) initialResultPage
        = loadOnMount E db initialResultPage)
   \<and> (idb_get E db DB_KEY = Inr None
        \<or> (\<exists>d. idb_get E db DB_KEY = Inr (Some d)
              \<and> (case shots d of None \<Rightarrow> True | Some stored \<Rightarrow> length stored \<noteq> 4)) \<longrightarrow>
      res_error (loadOnMount E db initialResultPage) =
        Some ''No capturing data found. Please take 4 photos on the capturing page first.''
    \<and> res_shots (loadOnMount E db initialResultPage) = []
    \<and> finalBlob (loadOnMount E db initialResultPage) = None)
   \<and> (idb_get E db DB_KEY = Inl e \<longrightarrow>
      res_error (loadOnMount E db initialResultPage) = Some (messageOr e ''Load failed'')
    \<and> res_shots (loadOnMount E db initialResultPage) = []
    \<and> finalBlob (loadOnMount E db initialResultPage) = None)"
proof (intro conjI impI)
  assume a: "idb_get E db DB_KEY = Inr (Some d) \<and> shots d = Some stored \<and> length stored = 4"
  then have g: "idbFailure E = None" "db DB_KEY = Some d"
    by (auto simp: idb_get_def split: option.splits)
  show "res_shots (loadOnMount E db initialResultPage) = stored"
    using a by (simp add: loadOnMount_def Let_def split: sum.splits)
  show "res_frameId (loadOnMount E db initialResultPage) = (case frameId d of None \<Rightarrow> frame1 | Some f \<Rightarrow> f)"
    using a by (simp add: loadOnMount_def Let_def frameIdOrDefault_def split: sum.splits)
  show "case snd (composeFinalPNG (browser E) stored
                  (getFrameConfig (case frameId d of None \<Rightarrow> frame1 | Some f \<Rightarrow> f))) of
          Inr png \<Rightarrow> finalBlob (loadOnMount E db initialResultPage) = Some png
                    \<and> res_error (loadOnMount E db initialResultPage) = None
        | Inl e \<Rightarrow> finalBlob (loadOnMount E db initialResultPage) = None
                    \<and> res_error (loadOnMount E db initialResultPage) = Some (messageOr e ''Load failed'')"
    using a by (simp add: loadOnMount_def Let_def frameIdOrDefault_def initialResultPage_def split: sum.splits)
  show "loadOnMount E (db(DB_KEY \<mapsto> d\<lparr>final := cached\<rparr>)) initialResultPage
        = loadOnMount E db initialResultPage"
    using a g by (simp add: loadOnMount_def Let_def frameIdOrDefault_def idb_get_def)
next
  assume a: "idb_get E db DB_KEY = Inr None
        \<or> (\<exists>d. idb_get E db DB_KEY = Inr (Some d)
              \<and> (case shots d of None \<Rightarrow> True | Some stored \<Rightarrow> length stored \<noteq> 4))"
  then have "loadOnMount E db initialResultPage =
      noCapturingData (initialResultPage\<lparr>res_error := None, loading := True\<rparr>)"
    by (auto simp: loadOnMount_def Let_def split: option.splits)
  then show "res_error (loadOnMount E db initialResultPage) =
        Some ''No capturing data found. Please take 4 photos on the capturing page first.''"
    "res_shots (loadOnMount E db initialResultPage) = []"
    "finalBlob (loadOnMount E db initialResultPage) = None"
    by (simp_all add: noCapturingData_def)
next
  assume a: "idb_get E db DB_KEY = Inl e"
  then show "res_error (loadOnMount E db initialResultPage) = Some (messageOr e ''Load failed'')"
    "res_shots (loadOnMount E db initialResultPage) = []"
    "finalBlob (loadOnMount E db initialResultPage) = None"
    by (simp_all add: loadOnMount_def Let_def initialResultPage_def)
qed

text \<open>A stored record with four shots and \<open>frame2\<close>, and an empty store.\<close>

theorem loadOnMount_outcomes_witness:
  "res_shots (loadOnMount workingSession [DB_KEY \<mapsto> storedRecord] initialResultPage) = fourShots
   \<and> res_frameId (loadOnMount workingSession [DB_KEY \<mapsto> storedRecord] initialResultPage) = frame2
   \<and> finalBlob (loadOnMount workingSession [DB_KEY \<mapsto> storedRecord] initialResultPage) = Some (Blob 144)
   \<and> res_shots (loadOnMount workingSession Map.empty initialResultPage) = []
   \<and> res_error (loadOnMount workingSession Map.empty initialResultPage) =
        Some ''No capturing data found. Please take 4 photos on the capturing page first.''"
  using loadOnMount_outcomes[where E = workingSession and db = "[DB_KEY \<mapsto> storedRecord]"
      and d = storedRecord and stored = fourShots]
    loadOnMount_outcomes[where E = workingSession and db = Map.empty]
    compose_working[of frame2]
  by (simp add: idb_get_def workingSession_def storedRecord_def fourShots_def)
     (simp add: getFrameConfig_def FRAMES_def)

text \<open>
  Claim C9. Selecting a different frame with exactly 4 shots loaded recomposes the final
  image with the configuration of the new frame and, when the composition succeeds and
  the store accepts the write, replaces the record under the storage key by the loaded
  shots, the new frame id, the new composite and the current time. The shots of the page
  stay as they are, so a record that held these shots still holds them; no other key of
  the store changes in any case, and when the composition or the write fails the store
  is left as it was.
\<close>

theorem selectFrame_overwrites:
  assumes four: "length (res_shots s) = 4" and other: "f \<noteq> res_frameId s"
  shows "(\<forall>k. k \<noteq> DB_KEY \<longrightarrow> snd (selectFrame E db s f) k = db k)
     \<and> res_shots (fst (selectFrame E db s f)) = res_shots s
     \<and> (snd (composeFinalPNG (browser E) (res_shots s) (getFrameConfig f)) = Inr png
          \<and> idbFailure E = None \<longrightarrow>
        snd (selectFrame E db s f) =
          db(DB_KEY \<mapsto> \<lparr>shots = Some (res_shots s), frameId = Some f, final = Some png,
                           savedAt = Some (now E)\<rparr>)
        \<and> finalBlob (fst (selectFrame E db s f)) = Some png
        \<and> res_frameId (fst (selectFrame E db s f)) = f)
     \<and> (isl (snd (composeFinalPNG (browser E) (res_shots s) (getFrameConfig f)))
          \<or> idbFailure E \<noteq> None \<longrightarrow>
        snd (selectFrame E db s f) = db)
     \<and> (\<forall>d. db DB_KEY = Some d \<and> shots d = Some (res_shots s) \<longrightarrow>
          map_option shots (snd (selectFrame E db s f) DB_KEY) = Some (Some (res_shots s)))"
  using four other
  by (auto simp: selectFrame_def frameEffect_def Let_def idb_set_def split: sum.splits option.splits)

text \<open>From \<open>frame1\<close> to \<open>frame4\<close>, in a working session and with a store that rejects.\<close>

theorem selectFrame_overwrites_witness:
  "length (res_shots loadedResultPage) = 4 \<and> frame4 \<noteq> res_frameId loadedResultPage
   \<and> snd (selectFrame workingSession [DB_KEY \<mapsto> storedRecord] loadedResultPage frame4) =
       [DB_KEY \<mapsto> \<lparr>shots = Some fourShots, frameId = Some frame4, final = Some (Blob 144),
                      savedAt = Some 1700000000000\<rparr>]
   \<and> snd (selectFrame (workingSession\<lparr>idbFailure := Some (Error ''QuotaExceededError'')\<rparr>)
          [DB_KEY \<mapsto> storedRecord] loadedResultPage frame4) = [DB_KEY \<mapsto> storedRecord]"
  using selectFrame_overwrites[where s = loadedResultPage and f = frame4 and E = workingSession
      and png = "Blob 144" and db = "[DB_KEY \<mapsto> storedRecord]"]
    selectFrame_overwrites[where s = loadedResultPage and f = frame4
      and E = "workingSession\<lparr>idbFailure := Some (Error ''QuotaExceededError'')\<rparr>"
      and png = "Blob 144" and db = "[DB_KEY \<mapsto> storedRecord]"]
    compose_working[of frame4]
  by (simp add: loadedResultPage_def workingSession_def fourShots_def)
     (simp add: getFrameConfig_def FRAMES_def)

subsection \<open>One record under one key\<close>

text \<open>An operation leaves the store alone, or overwrites the one key, or deletes it.\<close>

lemma shoot4_store:
  "(\<forall>db. fst (snd (snd (shoot4WithPerShotCountdown E c db))) = db)
   \<or> (\<exists>r. complete r \<and> (\<forall>db. fst (snd (snd (shoot4WithPerShotCountdown E c db))) = db(DB_KEY \<mapsto> r)))"
proof (cases "videoRef E")
  case None
  then show ?thesis by (simp add: shoot4WithPerShotCountdown_def Let_def)
next
  case (Some video)
  let ?s0 = "c\<lparr>cap_error := None, isShooting := True, cap_shots := [], shotIndex := 0\<rparr>"
  obtain r s1 tr where loop: "shootLoop E video 0 [] ?s0 [] = (r, s1, tr)"
    by (cases "shootLoop E video 0 [] ?s0 []") auto
  show ?thesis
  proof (cases "cameraOn c \<and> \<not> isShooting c \<and> idbFailure E = None \<and> \<not> isl r")
    case False
    then have "\<forall>db. fst (snd (snd (shoot4WithPerShotCountdown E c db))) = db"
      using Some loop
      by (cases r) (auto simp: shoot4WithPerShotCountdown_def Let_def idb_set_def split: option.splits)
    then show ?thesis ..
  next
    case True
    then obtain captured where r: "r = Inr captured" by (cases r) auto
    have "length captured = 4"
      using shootLoop_Inr_four[of E video ?s0 captured] loop r by simp
    then have "complete \<lparr>shots = Some captured, frameId = Some frame1, final = None, savedAt = Some (now E)\<rparr>"
      by (simp add: complete_def)
    moreover have "\<forall>db. fst (snd (snd (shoot4WithPerShotCountdown E c db))) =
        db(DB_KEY \<mapsto> \<lparr>shots = Some captured, frameId = Some frame1, final = None, savedAt = Some (now E)\<rparr>)"
      using True Some loop r by (simp add: shoot4WithPerShotCountdown_def Let_def idb_set_def)
    ultimately show ?thesis by blast
  qed
qed

lemma frameEffect_store:
  "(\<forall>db. snd (frameEffect E db s) = db)
   \<or> (\<exists>r. complete r \<and> (\<forall>db. snd (frameEffect E db s) = db(DB_KEY \<mapsto> r)))"
proof (cases "length (res_shots s) = 4 \<and> idbFailure E = None
    \<and> \<not> isl (snd (composeFinalPNG (browser E) (res_shots s) (getFrameConfig (res_frameId s))))")
  case False
  then have "\<forall>db. snd (frameEffect E db s) = db"
    by (auto simp: frameEffect_def Let_def idb_set_def split: sum.splits option.splits)
  then show ?thesis ..
next
  case True
  then obtain png where
    png: "snd (composeFinalPNG (browser E) (res_shots s) (getFrameConfig (res_frameId s))) = Inr png"
    by (cases "snd (composeFinalPNG (browser E) (res_shots s) (getFrameConfig (res_frameId s)))") auto
  have "complete \<lparr>shots = Some (res_shots s), frameId = Some (res_frameId s), final = Some png,
      savedAt = Some (now E)\<rparr>"
    using True by (simp add: complete_def)
  moreover have "\<forall>db. snd (frameEffect E db s) =
      db(DB_KEY \<mapsto> \<lparr>shots = Some (res_shots s), frameId = Some (res_frameId s), final = Some png,
      savedAt = Some (now E)\<rparr>)"
    using True png by (simp add: frameEffect_def Let_def idb_set_def)
  ultimately show ?thesis by blast
qed

lemma selectFrame_store:
  "(\<forall>db. snd (selectFrame E db s f) = db)
   \<or> (\<exists>r. complete r \<and> (\<forall>db. snd (selectFrame E db s f) = db(DB_KEY \<mapsto> r)))"
  using frameEffect_store[of E "s\<lparr>res_frameId := f\<rparr>"]
  by (cases "f = res_frameId s") (simp_all add: selectFrame_def)

lemma saveToDB_store:
  "(\<forall>db. snd (saveToDB E db s) = db)
   \<or> (\<exists>r. complete r \<and> (\<forall>db. snd (saveToDB E db s) = db(DB_KEY \<mapsto> r)))"
proof (cases "length (res_shots s) = 4 \<and> idbFailure E = None")
  case False
  then have "\<forall>db. snd (saveToDB E db s) = db"
    by (auto simp: saveToDB_def Let_def idb_set_def split: option.splits)
  then show ?thesis ..
next
  case True
  have "complete \<lparr>shots = Some (res_shots s), frameId = Some (res_frameId s), final = finalBlob s,
      savedAt = Some (now E)\<rparr>"
    using True by (simp add: complete_def)
  moreover have "\<forall>db. snd (saveToDB E db s) =
      db(DB_KEY \<mapsto> \<lparr>shots = Some (res_shots s), frameId = Some (res_frameId s), final = finalBlob s,
      savedAt = Some (now E)\<rparr>)"
    using True by (simp add: saveToDB_def Let_def idb_set_def)
  ultimately show ?thesis by blast
qed

lemma clearDB_store:
  "(\<forall>db. snd (clearDB E db s) = db) \<or> (\<forall>db. snd (clearDB E db s) = db(DB_KEY := None))"
  by (cases "idbFailure E") (simp_all add: clearDB_def Let_def idb_del_def)

lemma storeAfter_cases:
  "(\<forall>db. storeAfter E op db = db)
   \<or> (\<exists>r. complete r \<and> (\<forall>db. storeAfter E op db = db(DB_KEY \<mapsto> r)))
   \<or> ((\<exists>s. op = Delete s) \<and> (\<forall>db. storeAfter E op db = db(DB_KEY := None)))"
proof (cases op)
  case (CaptureSave c)
  then show ?thesis using shoot4_store[of E c] by auto
next
  case (FrameSave s f)
  then show ?thesis using selectFrame_store[of E s f] by auto
next
  case (ManualSave s)
  then show ?thesis using saveToDB_store[of E s] by auto
next
  case (Delete s)
  then show ?thesis using clearDB_store[of E s] by auto
qed

lemma storeAfter_other_keys: "k \<noteq> DB_KEY \<Longrightarrow> storeAfter E op db k = db k"
  using storeAfter_cases[of E op] by auto

lemma storeAfterAll_other_keys: "k \<noteq> DB_KEY \<Longrightarrow> storeAfterAll ops db k = db k"
proof (induction ops arbitrary: db)
  case Nil
  then show ?case by simp
next
  case (Cons a ops)
  then show ?case by (cases a) (simp add: storeAfter_other_keys)
qed

text \<open>What each operation writes, and when.\<close>

lemma saveToDB_writes:
  "snd (saveToDB E db s) =
     (if length (res_shots s) = 4 \<and> idbFailure E = None
      then db(DB_KEY \<mapsto> \<lparr>shots = Some (res_shots s), frameId = Some (res_frameId s),
                            final = finalBlob s, savedAt = Some (now E)\<rparr>)
      else db)"
  by (auto simp: saveToDB_def Let_def idb_set_def split: option.splits)

lemma clearDB_writes:
  "snd (clearDB E db s) = (if idbFailure E = None then db(DB_KEY := None) else db)"
  by (auto simp: clearDB_def Let_def idb_del_def split: option.splits)

lemma selectFrame_writes:
  "snd (selectFrame E db s f) =
     (if f \<noteq> res_frameId s \<and> length (res_shots s) = 4 \<and> idbFailure E = None
      then (case snd (composeFinalPNG (browser E) (res_shots s) (getFrameConfig f)) of
              Inl e \<Rightarrow> db
            | Inr png \<Rightarrow>
                db(DB_KEY \<mapsto> \<lparr>shots = Some (res_shots s), frameId = Some f, final = Some png,
                                 savedAt = Some (now E)\<rparr>))
      else db)"
  by (auto simp: selectFrame_def frameEffect_def Let_def idb_set_def split: option.splits sum.splits)

lemma shoot4_writes:
  assumes "videoRef E = Some video" "cameraOn c" "\<not> isShooting c" "idbFailure E = None"
    and "snd (captureFromVideo (browser E) (video 0)) = Inr ba"
    and "snd (captureFromVideo (browser E) (video 1)) = Inr bb"
    and "snd (captureFromVideo (browser E) (video 2)) = Inr bc"
    and "snd (captureFromVideo (browser E) (video 3)) = Inr bd"
  shows "fst (snd (snd (shoot4WithPerShotCountdown E c db))) =
     db(DB_KEY \<mapsto> \<lparr>shots = Some [ba, bb, bc, bd], frameId = Some frame1, final = None,
                      savedAt = Some (now E)\<rparr>)"
  using assms(1-4)
    shootLoop_four[OF assms(5-8),
      of "c\<lparr>cap_error := None, isShooting := True, cap_shots := [], shotIndex := 0\<rparr>"]
  by (simp add: shoot4WithPerShotCountdown_def Let_def idb_set_def)

lemma shoot4_keeps:
  assumes "videoRef E = None \<or> \<not> cameraOn c \<or> isShooting c \<or> idbFailure E \<noteq> None
     \<or> (\<exists>video k. videoRef E = Some video \<and> k < 4
           \<and> isl (snd (captureFromVideo (browser E) (video k))))"
  shows "fst (snd (snd (shoot4WithPerShotCountdown E c db))) = db"
proof (cases "videoRef E")
  case None
  then show ?thesis by (simp add: shoot4WithPerShotCountdown_def Let_def)
next
  case (Some video)
  let ?s = "c\<lparr>cap_error := None, isShooting := True, cap_shots := [], shotIndex := 0\<rparr>"
  obtain r s1 tr where l: "shootLoop E video 0 [] ?s [] = (r, s1, tr)"
    by (cases "shootLoop E video 0 [] ?s []") auto
  show ?thesis
  proof (cases r)
    case (Inl e)
    then show ?thesis using Some l by (simp add: shoot4WithPerShotCountdown_def Let_def)
  next
    case (Inr captured)
    then have "\<not> isl (fst (shootLoop E video 0 [] ?s []))" using l by simp
    then have "\<not> (\<exists>k. k < 4 \<and> isl (snd (captureFromVideo (browser E) (video k))))"
      by (simp add: shootLoop_Inl_iff)
    with assms Some have "\<not> cameraOn c \<or> isShooting c \<or> idbFailure E \<noteq> None" by auto
    then show ?thesis
      using Some l Inr
      by (auto simp: shoot4WithPerShotCountdown_def Let_def idb_set_def split: option.splits)
  qed
qed

text \<open>
  Claim C5. Every persistence operation (the save of the capture page, the save on a
  frame change, the manual save and the delete of the result page) addresses the single
  key "toaster_mvp_state_v1": it leaves the store as it is, or deletes that key (the
  delete only), or puts a complete record under that key whatever was there before. So
  no sequence of operations changes another key, and a store that holds at most the
  record under this key never holds more than one record. The writes are these. The
  capture page puts the record of the four captured shots, \<open>frame1\<close>, no final image and
  the current time when the camera is on, no sequence is running, the four captures
  succeed and the store accepts; it leaves the store as it is when the sequence is
  refused, a capture fails or the store rejects. A frame change puts the record of the
  loaded shots, the new frame, the new composite and the current time exactly when the
  frame differs from the current one, four shots are loaded, the composition succeeds
  and the store accepts. The manual save puts the record of the loaded shots, the
  current frame, the current final image and the current time exactly when four shots
  are loaded and the store accepts. The delete removes the key exactly when the store
  accepts.
\<close>

theorem single_overwritable_record:
  "((\<forall>db. storeAfter E op db = db)
     \<or> (\<exists>r. complete r \<and> (\<forall>db. storeAfter E op db = db(DB_KEY \<mapsto> r)))
     \<or> ((\<exists>s. op = Delete s) \<and> (\<forall>db. storeAfter E op db = db(DB_KEY := None))))
   \<and> (\<forall>k. k \<noteq> DB_KEY \<longrightarrow> storeAfterAll ops db k = db k)
   \<and> (dom db \<subseteq> {DB_KEY} \<longrightarrow> dom (storeAfterAll ops db) \<subseteq> {DB_KEY}
        \<and> card (dom (storeAfterAll ops db)) \<le> 1)
   \<and> DB_KEY = ''toaster_mvp_state_v1''
   \<and> (videoRef E = Some video \<and> cameraOn c \<and> \<not> isShooting c \<and> idbFailure E = None
        \<and> snd (captureFromVideo (browser E) (video 0)) = Inr ba
        \<and> snd (captureFromVideo (browser E) (video 1)) = Inr bb
        \<and> snd (captureFromVideo (browser E) (video 2)) = Inr bc
        \<and> snd (captureFromVideo (browser E) (video 3)) = Inr bd \<longrightarrow>
      storeAfter E (CaptureSave c) db =
        db(DB_KEY \<mapsto> \<lparr>shots = Some [ba, bb, bc, bd], frameId = Some frame1, final = None,
                         savedAt = Some (now E)\<rparr>))
   \<and> (videoRef E = None \<or> \<not> cameraOn c \<or> isShooting c \<or> idbFailure E \<noteq> None
        \<or> (\<exists>video k. videoRef E = Some video \<and> k < 4
              \<and> isl (snd (captureFromVideo (browser E) (video k)))) \<longrightarrow>
      storeAfter E (CaptureSave c) db = db)
   \<and> storeAfter E (FrameSave s f) db =
       (if f \<noteq> res_frameId s \<and> length (res_shots s) = 4 \<and> idbFailure E = None
        then (case snd (composeFinalPNG (browser E) (res_shots s) (getFrameConfig f)) of
                Inl e \<Rightarrow> db
              | Inr png \<Rightarrow>
                  db(DB_KEY \<mapsto> \<lparr>shots = Some (res_shots s), frameId = Some f, final = Some png,
                                   savedAt = Some (now E)\<rparr>))
        else db)
   \<and> storeAfter E (ManualSave s) db =
       (if length (res_shots s) = 4 \<and> idbFailure E = None
        then db(DB_KEY \<mapsto> \<lparr>shots = Some (res_shots s), frameId = Some (res_frameId s),
                              final = finalBlob s, savedAt = Some (now E)\<rparr>)
        else db)
   \<and> storeAfter E (Delete s) db = (if idbFailure E = None then db(DB_KEY := None) else db)"
proof (intro conjI impI allI)
  show "(\<forall>db. storeAfter E op db = db)
     \<or> (\<exists>r. complete r \<and> (\<forall>db. storeAfter E op db = db(DB_KEY \<mapsto> r)))
     \<or> ((\<exists>s. op = Delete s) \<and> (\<forall>db. storeAfter E op db = db(DB_KEY := None)))"
    by (rule storeAfter_cases)
  show "storeAfterAll ops db k = db k" if "k \<noteq> DB_KEY" for k
    using that by (rule storeAfterAll_other_keys)
  show "DB_KEY = ''toaster_mvp_state_v1''" by (simp add: DB_KEY_def)
  show "storeAfter E (FrameSave s f) db =
       (if f \<noteq> res_frameId s \<and> length (res_shots s) = 4 \<and> idbFailure E = None
        then (case snd (composeFinalPNG (browser E) (res_shots s) (getFrameConfig f)) of
                Inl e \<Rightarrow> db
              | Inr png \<Rightarrow>
                  db(DB_KEY \<mapsto> \<lparr>shots = Some (res_shots s), frameId = Some f, final = Some png,
                                   savedAt = Some (now E)\<rparr>))
        else db)"
    by (simp only: storeAfter.simps selectFrame_writes)
  show "storeAfter E (ManualSave s) db =
       (if length (res_shots s) = 4 \<and> idbFailure E = None
        then db(DB_KEY \<mapsto> \<lparr>shots = Some (res_shots s), frameId = Some (res_frameId s),
                              final = finalBlob s, savedAt = Some (now E)\<rparr>)
        else db)"
    by (simp only: storeAfter.simps saveToDB_writes)
  show "storeAfter E (Delete s) db = (if idbFailure E = None then db(DB_KEY := None) else db)"
    by (simp only: storeAfter.simps clearDB_writes)
  show "storeAfter E (CaptureSave c) db =
        db(DB_KEY \<mapsto> \<lparr>shots = Some [ba, bb, bc, bd], frameId = Some frame1, final = None,
                         savedAt = Some (now E)\<rparr>)"
    if "videoRef E = Some video \<and> cameraOn c \<and> \<not> isShooting c \<and> idbFailure E = None
        \<and> snd (captureFromVideo (browser E) (video 0)) = Inr ba
        \<and> snd (captureFromVideo (browser E) (video 1)) = Inr bb
        \<and> snd (captureFromVideo (browser E) (video 2)) = Inr bc
        \<and> snd (captureFromVideo (browser E) (video 3)) = Inr bd"
    using that shoot4_writes[of E video c ba bb bc bd db] by simp
  show "storeAfter E (CaptureSave c) db = db"
    if "videoRef E = None \<or> \<not> cameraOn c \<or> isShooting c \<or> idbFailure E \<noteq> None
        \<or> (\<exists>video k. videoRef E = Some video \<and> k < 4
              \<and> isl (snd (captureFromVideo (browser E) (video k))))"
    using that shoot4_keeps[of E c db] by simp
  assume d: "dom db \<subseteq> {DB_KEY}"
  show sub: "dom (storeAfterAll ops db) \<subseteq> {DB_KEY}"
  proof
    fix k assume k: "k \<in> dom (storeAfterAll ops db)"
    show "k \<in> {DB_KEY}"
    proof (rule ccontr)
      assume "k \<notin> {DB_KEY}"
      then have "k \<noteq> DB_KEY" by simp
      then have "storeAfterAll ops db k = db k" by (rule storeAfterAll_other_keys)
      with k have "k \<in> dom db" by (simp add: dom_def)
      with d \<open>k \<noteq> DB_KEY\<close> show False by auto
    qed
  qed
  then show "card (dom (storeAfterAll ops db)) \<le> 1"
    using card_mono[of "{DB_KEY}" "dom (storeAfterAll ops db)"] by simp
qed

text \<open>
  Five operations in a row on a store that holds the record; a foreign key stays; what
  the capture page, the manual save and the delete leave in the store, and a capture
  sequence whose third capture fails.
\<close>

theorem single_overwritable_record_witness:
  "dom [DB_KEY \<mapsto> storedRecord] \<subseteq> {DB_KEY}
   \<and> card (dom (storeAfterAll
        [(workingSession, CaptureSave readyCapturePage), (workingSession, FrameSave loadedResultPage frame3),
         (workingSession, ManualSave loadedResultPage), (workingSession, Delete loadedResultPage),
         (workingSession, ManualSave loadedResultPage)]
        [DB_KEY \<mapsto> storedRecord])) \<le> 1
   \<and> storeAfterAll [(workingSession, ManualSave loadedResultPage)] [''other'' \<mapsto> storedRecord] ''other''
       = Some storedRecord
   \<and> storeAfter workingSession (CaptureSave readyCapturePage) [DB_KEY \<mapsto> storedRecord] =
       [DB_KEY \<mapsto> \<lparr>shots = Some [Blob 100, Blob 101, Blob 102, Blob 103], frameId = Some frame1,
                      final = None, savedAt = Some 1700000000000\<rparr>]
   \<and> storeAfter workingSession (ManualSave loadedResultPage) [DB_KEY \<mapsto> storedRecord] =
       [DB_KEY \<mapsto> \<lparr>shots = Some fourShots, frameId = Some frame1,
                      final = Some (Blob 144), savedAt = Some 1700000000000\<rparr>]
   \<and> storeAfter workingSession (Delete loadedResultPage) [DB_KEY \<mapsto> storedRecord] = Map.empty
   \<and> storeAfter stallingSession (CaptureSave readyCapturePage) [DB_KEY \<mapsto> storedRecord] =
       [DB_KEY \<mapsto> storedRecord]"
proof -
  have "''other'' \<noteq> DB_KEY" by (simp add: DB_KEY_def)
  with single_overwritable_record[where db = "[''other'' \<mapsto> storedRecord]"
      and ops = "[(workingSession, ManualSave loadedResultPage)]"]
  have 1: "storeAfterAll [(workingSession, ManualSave loadedResultPage)] [''other'' \<mapsto> storedRecord] ''other''
       = [''other'' \<mapsto> storedRecord] ''other''"
    by blast
  have 2: "storeAfter workingSession (CaptureSave readyCapturePage) [DB_KEY \<mapsto> storedRecord] =
       [DB_KEY \<mapsto> \<lparr>shots = Some [Blob 100, Blob 101, Blob 102, Blob 103], frameId = Some frame1,
                      final = None, savedAt = Some 1700000000000\<rparr>]"
    using single_overwritable_record[where E = workingSession and c = readyCapturePage
        and video = webcam and ba = "Blob 100" and bb = "Blob 101" and bc = "Blob 102"
        and bd = "Blob 103" and db = "[DB_KEY \<mapsto> storedRecord]"]
      capture_webcam[of 0] capture_webcam[of 1] capture_webcam[of 2] capture_webcam[of 3]
    by (simp add: workingSession_def readyCapturePage_def)
  have 3: "storeAfter workingSession (ManualSave loadedResultPage) [DB_KEY \<mapsto> storedRecord] =
       [DB_KEY \<mapsto> \<lparr>shots = Some fourShots, frameId = Some frame1,
                      final = Some (Blob 144), savedAt = Some 1700000000000\<rparr>]
    \<and> storeAfter workingSession (Delete loadedResultPage) [DB_KEY \<mapsto> storedRecord] = Map.empty"
    using single_overwritable_record[where E = workingSession and s = loadedResultPage
        and db = "[DB_KEY \<mapsto> storedRecord]"]
    by (simp add: workingSession_def loadedResultPage_def fourShots_def)
  have "isl (snd (captureFromVideo (browser stallingSession) (stallingWebcam 2)))"
    by (simp add: stallingWebcam_def captureFromVideo_def)
  moreover have "videoRef stallingSession = Some stallingWebcam"
    by (simp add: stallingSession_def)
  ultimately have "\<exists>video k. videoRef stallingSession = Some video \<and> k < 4
      \<and> isl (snd (captureFromVideo (browser stallingSession) (video k)))"
    by (intro exI[of _ stallingWebcam] exI[of _ "2::nat"]) simp
  with single_overwritable_record[where E = stallingSession and c = readyCapturePage
        and db = "[DB_KEY \<mapsto> storedRecord]"]
  have 4: "storeAfter stallingSession (CaptureSave readyCapturePage) [DB_KEY \<mapsto> storedRecord] =
       [DB_KEY \<mapsto> storedRecord]"
    by blast
  show ?thesis
    using 1 2 3 4 single_overwritable_record[where db = "[DB_KEY \<mapsto> storedRecord]" and ops =
        "[(workingSession, CaptureSave readyCapturePage), (workingSession, FrameSave loadedResultPage frame3),
         (workingSession, ManualSave loadedResultPage), (workingSession, Delete loadedResultPage),
         (workingSession, ManualSave loadedResultPage)]"]
    by simp
qed

end
